theory Spec2Isabelle
  imports Main "HOL-Library.Monad_Syntax" "HOL-Library.Stream"
begin

section \<open>Machine integers and undefined behaviour\<close>

text \<open>
  The engine computes with the C++ type \<open>int\<close> (32 bits, two's complement). Signed
  overflow is undefined behaviour in C++, so it is neither wrap-around nor unbounded
  arithmetic: the model keeps values as mathematical integers and makes every signed
  operation of the source return \<open>None\<close> when its result leaves the range of \<open>int\<close>.
  Throughout, \<open>None\<close> stands for "the C++ program has no defined result here": signed
  overflow, an out-of-range \<open>std::vector\<close> subscript, a null \<open>unique_ptr\<close>
  dereference, a \<open>uniform_int_distribution\<close> with an empty range, an allocation of
  negative size.
\<close>

definition INT_MIN :: int where
  "INT_MIN = - 2147483648"

definition INT_MAX :: int where
  "INT_MAX = 2147483647"

definition in_int :: "int \<Rightarrow> bool" where
  "in_int v = (INT_MIN \<le> v \<and> v \<le> INT_MAX)"

definition ck :: "int \<Rightarrow> int option" where
  "ck v = (if in_int v then Some v else None)"

section \<open>Data model\<close>

type_synonym Position = "int \<times> int"

type_synonym EntityId = nat

datatype Direction = North | South | East | West

datatype EnemyType = Goblin | Orc | Skeleton | Zombie | Dragon | Rat | Spider

datatype TileType = Floor | Wall | Door | StairsUp | StairsDown | Trap

datatype GameState = MainMenu | Playing | GameOver

datatype ItemType = Potion

text \<open>
  The declarations of the classes live in the header \<open>retro_dungeon/game.hpp\<close>, which
  is not part of the sources; the fields below are the ones the member functions of
  \<open>game.cpp\<close> read and write. The fields of an enemy carry the prefix \<open>e_\<close> where
  the player has a field of the same name. An item is built from six constructor
  arguments and never inspected.
\<close>

datatype Item = Item string ItemType char int int int

record Enemy =
  e_id :: EntityId
  e_type :: EnemyType
  e_pos :: Position
  e_name :: string
  e_symbol :: char
  e_health :: int
  e_maxHealth :: int
  e_attackPower :: int
  e_defense :: int
  expReward :: int
  goldReward :: int

record Player =
  p_id :: EntityId
  name :: string
  pos :: Position
  health :: int
  maxHealth :: int
  attackPower :: int
  defense :: int
  level :: int
  experience :: int
  gold :: int
  dungeonLevel :: int
  inventory :: "Item list"

subsection \<open>Enemy::Enemy\<close>

text \<open>
  The member initialiser list sets id, type, position and the two rewards; the switch
  sets the archetype's name, symbol and four stats.
\<close>

definition new_Enemy :: "EntityId \<Rightarrow> EnemyType \<Rightarrow> Position \<Rightarrow> Enemy" where
  "new_Enemy i t p =
     (let e = \<lparr>e_id = i, e_type = t, e_pos = p, e_name = [], e_symbol = CHR 0x00,
               e_health = 0, e_maxHealth = 0, e_attackPower = 0, e_defense = 0,
               expReward = 10, goldReward = 5\<rparr>
      in case t of
           Goblin \<Rightarrow> e\<lparr>e_name := ''Goblin'', e_symbol := CHR ''g'', e_health := 20,
                       e_maxHealth := 20, e_attackPower := 5, e_defense := 2\<rparr>
         | Orc \<Rightarrow> e\<lparr>e_name := ''Orc'', e_symbol := CHR ''o'', e_health := 40,
                    e_maxHealth := 40, e_attackPower := 10, e_defense := 5\<rparr>
         | Skeleton \<Rightarrow> e\<lparr>e_name := ''Skeleton'', e_symbol := CHR ''s'', e_health := 25,
                         e_maxHealth := 25, e_attackPower := 8, e_defense := 3\<rparr>
         | Zombie \<Rightarrow> e\<lparr>e_name := ''Zombie'', e_symbol := CHR ''z'', e_health := 35,
                       e_maxHealth := 35, e_attackPower := 6, e_defense := 8\<rparr>
         | Dragon \<Rightarrow> e\<lparr>e_name := ''Dragon'', e_symbol := CHR ''D'', e_health := 0,
                       e_maxHealth := 200, e_attackPower := 30, e_defense := 20\<rparr>
         | Rat \<Rightarrow> e\<lparr>e_name := ''Rat'', e_symbol := CHR ''r'', e_health := 5,
                    e_maxHealth := 5, e_attackPower := 2, e_defense := 0\<rparr>
         | Spider \<Rightarrow> e\<lparr>e_name := ''Spider'', e_symbol := CHR ''x'', e_health := 15,
                       e_maxHealth := 15, e_attackPower := 6, e_defense := 1\<rparr>)"

subsection \<open>Player::Player, Player::move\<close>

definition new_Player :: "EntityId \<Rightarrow> string \<Rightarrow> Position \<Rightarrow> Player" where
  "new_Player i n p =
     \<lparr>p_id = i, name = n, pos = p, health = 100, maxHealth = 100, attackPower = 5,
      defense = 2, level = 1, experience = 0, gold = 0, dungeonLevel = 1, inventory = []\<rparr>"

text \<open>
  \<open>Player::move\<close> copies the position, changes one coordinate in the switch, writes
  the pair back and returns \<open>true\<close>. Each of the four updates is a signed operation.
\<close>

definition move :: "Player \<Rightarrow> Direction \<Rightarrow> (bool \<times> Player) option" where
  "move p dir =
     (case pos p of (x, y) \<Rightarrow>
        do {
          xy \<leftarrow> (case dir of
                  North \<Rightarrow> do { y' \<leftarrow> ck (y - 1); Some (x, y') }
                | South \<Rightarrow> do { y' \<leftarrow> ck (y + 1); Some (x, y') }
                | East \<Rightarrow> do { x' \<leftarrow> ck (x + 2); Some (x', y) }
                | West \<Rightarrow> do { x' \<leftarrow> ck (x - 1); Some (x', y) });
          Some (True, p\<lparr>pos := xy\<rparr>)
        })"

section \<open>Grid map\<close>

record Tile =
  t_type :: TileType
  symbol :: char
  walkable :: bool

record Map =
  m_width :: int
  m_height :: int
  m_tiles :: "Tile list list"
  m_stairsDown :: Position

text \<open>
  Modelled from the spec: the constant \<open>INVALID_POSITION\<close> is declared in the missing
  header; the spec calls it the invalid sentinel of \<open>stairsDown\<close>. Its value is not
  given; no property below depends on it.
\<close>

definition INVALID_POSITION :: Position where
  "INVALID_POSITION = (- 1, - 1)"

text \<open>
  \<open>Map::Map\<close> resizes the grid to \<open>h\<close> rows of \<open>w\<close> Wall tiles. The sizes are
  converted to \<open>size_t\<close>, so a negative one asks for more elements than a vector can
  hold and the constructor throws.
\<close>

definition new_Map :: "int \<Rightarrow> int \<Rightarrow> Map option" where
  "new_Map w h =
     (if w < 0 \<or> h < 0 then None
      else Some \<lparr>m_width = w, m_height = h,
                 m_tiles = replicate (nat h)
                   (replicate (nat w) \<lparr>t_type = Wall, symbol = CHR ''#'', walkable = False\<rparr>),
                 m_stairsDown = INVALID_POSITION\<rparr>)"

text \<open>\<open>m_tiles[y][x]\<close>: an unchecked subscript, undefined outside the vectors.\<close>

definition getTile :: "Map \<Rightarrow> int \<Rightarrow> int \<Rightarrow> Tile option" where
  "getTile m x y =
     (if 0 \<le> y \<and> nat y < length (m_tiles m) \<and> 0 \<le> x \<and> nat x < length (m_tiles m ! nat y)
      then Some (m_tiles m ! nat y ! nat x) else None)"

definition isValidPosition :: "Map \<Rightarrow> int \<Rightarrow> int \<Rightarrow> bool" where
  "isValidPosition m x y = (x \<ge> 0 \<and> x < m_width m \<and> y \<ge> 0 \<and> y < m_height m)"

definition isWalkable :: "Map \<Rightarrow> int \<Rightarrow> int \<Rightarrow> bool option" where
  "isWalkable m x y =
     (if \<not> isValidPosition m x y then Some False
      else map_option walkable (getTile m x y))"

text \<open>The tile the switch of \<open>Map::setTile\<close> builds for each type.\<close>

definition tile_of :: "TileType \<Rightarrow> Tile" where
  "tile_of t =
     (case t of
        Floor \<Rightarrow> \<lparr>t_type = t, symbol = CHR ''.'', walkable = True\<rparr>
      | Wall \<Rightarrow> \<lparr>t_type = t, symbol = CHR ''#'', walkable = False\<rparr>
      | Door \<Rightarrow> \<lparr>t_type = t, symbol = CHR ''+'', walkable = True\<rparr>
      | StairsUp \<Rightarrow> \<lparr>t_type = t, symbol = CHR ''<'', walkable = True\<rparr>
      | StairsDown \<Rightarrow> \<lparr>t_type = t, symbol = CHR ''>'', walkable = True\<rparr>
      | Trap \<Rightarrow> \<lparr>t_type = t, symbol = CHR ''^'', walkable = True\<rparr>)"

definition setTile :: "Map \<Rightarrow> int \<Rightarrow> int \<Rightarrow> TileType \<Rightarrow> Map option" where
  "setTile m x y t =
     (if \<not> isValidPosition m x y then Some m
      else if nat y < length (m_tiles m) \<and> nat x < length (m_tiles m ! nat y)
      then Some (m\<lparr>m_tiles := (m_tiles m)[nat y := (m_tiles m ! nat y)[nat x := tile_of t]]\<rparr>)
      else None)"

text \<open>
  Modelled from the spec: \<open>Map::setStairsDown\<close> is an inline member of the missing
  header; the spec says the generator records the stairs' position on the map.
\<close>

definition setStairsDown :: "Map \<Rightarrow> Position \<Rightarrow> Map" where
  "setStairsDown m p = m\<lparr>m_stairsDown := p\<rparr>"

definition clear :: "Map \<Rightarrow> Map" where
  "clear m =
     m\<lparr>m_tiles := map (map (\<lambda>tile. \<lparr>t_type = Wall, symbol = CHR ''#'', walkable = False\<rparr>))
                     (m_tiles m),
       m_stairsDown := INVALID_POSITION\<rparr>"

section \<open>Dungeon generator\<close>

text \<open>
  The random engine of the generator is a standard-library engine whose type is named in
  the missing header, and the mapping from its state to the values of a
  \<open>std::uniform_int_distribution\<close> is implementation-defined. The model replaces the
  engine's state by the infinite sequence of raw values it is going to deliver: a draw
  from the range \<open>[a, b]\<close> consumes the head of the sequence and reduces it into the
  range. Every run of the real engine is the run of some sequence, so a property proved
  for every sequence holds for every seed. A distribution with \<open>b < a\<close> violates the
  library's precondition.
\<close>

type_synonym rng = "nat stream"

definition uniform_int :: "int \<Rightarrow> int \<Rightarrow> rng \<Rightarrow> (int \<times> rng) option" where
  "uniform_int a b r =
     (if a \<le> b then Some (a + int (shd r mod nat (b - a + 1)), stl r) else None)"

record DungeonGenerator =
  m_seed :: nat
  m_rng :: rng

text \<open>The inner loop of \<open>generate\<close>: one row of the room, from column \<open>x\<close> on.\<close>

function carve_row :: "Map \<Rightarrow> int \<Rightarrow> int \<Rightarrow> int \<Rightarrow> int \<Rightarrow> Map option" where
  "carve_row m y x xend width =
     (if x < xend \<and> x < width - 1
      then do { m' \<leftarrow> setTile m x y Floor; carve_row m' y (x + 1) xend width }
      else Some m)"
  by pat_completeness auto
termination
  by (relation "measure (\<lambda>(m, y, x, xend, width). nat (xend - x))") auto

text \<open>The outer loop: the rows from \<open>y\<close> on.\<close>

function carve_rows ::
  "Map \<Rightarrow> int \<Rightarrow> int \<Rightarrow> int \<Rightarrow> int \<Rightarrow> int \<Rightarrow> int \<Rightarrow> Map option" where
  "carve_rows m y yend height roomX xend width =
     (if y < yend \<and> y < height - 1
      then do { m' \<leftarrow> carve_row m y roomX xend width;
                carve_rows m' (y + 1) yend height roomX xend width }
      else Some m)"
  by pat_completeness auto
termination
  by (relation "measure (\<lambda>(m, y, yend, height, roomX, xend, width). nat (yend - y))") auto

text \<open>
  \<open>DungeonGenerator::generate\<close>. The map is constructed first, so the divisions are
  reached with non-negative operands only, where C++ and HOL division agree. The two
  coordinates of the stairs are drawn in the order of the braced initialiser, x first.
\<close>

definition generate ::
  "DungeonGenerator \<Rightarrow> int \<Rightarrow> int \<Rightarrow> (Map \<times> DungeonGenerator) option" where
  "generate gen width height =
     do {
       m0 \<leftarrow> new_Map width height;
       let roomX = width div 4;
       let roomY = height div 4;
       let roomW = width div 2;
       let roomH = height div 2;
       m1 \<leftarrow> carve_rows m0 roomY (roomY + roomH) height roomX (roomX + roomW) width;
       if roomX \<le> roomX + roomW - 1 \<and> roomY \<le> roomY + roomH - 1
       then do {
         (sx, r1) \<leftarrow> uniform_int roomX (roomX + roomW - 1) (m_rng gen);
         (sy, r2) \<leftarrow> uniform_int roomY (roomY + roomH - 1) r1;
         m2 \<leftarrow> setTile m1 sx sy StairsDown;
         Some (setStairsDown m2 (sx, sy), gen\<lparr>m_rng := r2\<rparr>)
       }
       else None
     }"

section \<open>Decimal text of an int\<close>

text \<open>
  \<open>std::to_string(int)\<close> and \<open>operator<<(int)\<close> of the standard library write the
  decimal digits of the value, with a leading minus sign for a negative one.
\<close>

definition digit_char :: "nat \<Rightarrow> char" where
  "digit_char d = char_of (48 + d)"

function digits_of :: "nat \<Rightarrow> string" where
  "digits_of n =
     (if n < 10 then [digit_char n] else digits_of (n div 10) @ [digit_char (n mod 10)])"
  by pat_completeness auto
termination
  by (relation "measure id") auto

declare digits_of.simps [simp del]

definition to_string :: "int \<Rightarrow> string" where
  "to_string v = (if v < 0 then CHR ''-'' # digits_of (nat (- v)) else digits_of (nat v))"

section \<open>Game session\<close>

record Game =
  m_state :: GameState
  m_nextEntityId :: EntityId
  m_player :: "Player option"
  m_map :: "Map option"
  m_generator :: "DungeonGenerator option"
  m_enemies :: "Enemy list"
  m_floorItems :: "Item list"
  m_messages :: "string list"

text \<open>
  \<open>Game::Game\<close> starts in the main menu with the identifier counter at 1 and
  everything else empty. \<open>Game::initialize\<close> creates the generator; the seed it draws
  from \<open>std::random_device\<close> and the engine seeded with it are arguments here.
\<close>

definition new_Game :: Game where
  "new_Game =
     \<lparr>m_state = MainMenu, m_nextEntityId = 1, m_player = None, m_map = None,
      m_generator = None, m_enemies = [], m_floorItems = [], m_messages = []\<rparr>"

definition initialize :: "nat \<Rightarrow> rng \<Rightarrow> Game \<Rightarrow> bool \<times> Game" where
  "initialize seed r g = (True, g\<lparr>m_generator := Some \<lparr>m_seed = seed, m_rng = r\<rparr>\<rparr>)"

text \<open>
  Modelled from the spec: the constant \<open>MAX_MESSAGES\<close> is declared in the missing
  header; the spec gives the message log a capacity of 5.
\<close>

definition MAX_MESSAGES :: nat where
  "MAX_MESSAGES = 5"

text \<open>
  Modelled from the spec: \<open>takeDamage\<close> and \<open>isAlive\<close> of Enemy and of Player are
  inline members of the missing header. The spec says that a hit decreases health by
  exactly the damage and that an entity is alive while its health is above 0.
\<close>

definition Enemy_takeDamage :: "Enemy \<Rightarrow> int \<Rightarrow> Enemy option" where
  "Enemy_takeDamage e amt = do { h \<leftarrow> ck (e_health e - amt); Some (e\<lparr>e_health := h\<rparr>) }"

definition Enemy_isAlive :: "Enemy \<Rightarrow> bool" where
  "Enemy_isAlive e = (e_health e > 0)"

definition Player_takeDamage :: "Player \<Rightarrow> int \<Rightarrow> Player option" where
  "Player_takeDamage p amt = do { h \<leftarrow> ck (health p - amt); Some (p\<lparr>health := h\<rparr>) }"

definition Player_isAlive :: "Player \<Rightarrow> bool" where
  "Player_isAlive p = (health p > 0)"

subsection \<open>Game::addMessage\<close>

definition addMessage :: "Game \<Rightarrow> string \<Rightarrow> Game" where
  "addMessage g msg =
     (let ms = m_messages g @ [msg]
      in g\<lparr>m_messages := (if length ms > MAX_MESSAGES then tl ms else ms)\<rparr>)"

subsection \<open>Game::getEnemyAt\<close>

text \<open>
  The result is the index in \<open>m_enemies\<close> of the enemy the returned pointer refers to;
  \<open>None\<close> is the null pointer here, a defined result.
\<close>

fun getEnemyAt_loop :: "Enemy list \<Rightarrow> Position \<Rightarrow> nat option" where
  "getEnemyAt_loop [] p = None"
| "getEnemyAt_loop (e # es) p =
     (if e_pos e = p \<and> Enemy_isAlive e then Some 0
      else map_option Suc (getEnemyAt_loop es p))"

definition getEnemyAt :: "Game \<Rightarrow> Position \<Rightarrow> nat option" where
  "getEnemyAt g p = getEnemyAt_loop (m_enemies g) p"

subsection \<open>Game::handleCombat\<close>

text \<open>
  The enemy is passed by reference into \<open>m_enemies\<close>: the model takes its index and
  writes the hit enemy back at that index.
\<close>

definition handleCombat :: "Game \<Rightarrow> nat \<Rightarrow> Game option" where
  "handleCombat g i =
     do {
       p \<leftarrow> m_player g;
       e0 \<leftarrow> (if i < length (m_enemies g) then Some (m_enemies g ! i) else None);
       let damage = attackPower p;
       e \<leftarrow> Enemy_takeDamage e0 damage;
       let g1 = addMessage (g\<lparr>m_enemies := (m_enemies g)[i := e]\<rparr>)
                  (''You hit '' @ e_name e @ '' for '' @ to_string damage @ '' damage!'');
       if Enemy_isAlive e
       then do {
         d \<leftarrow> ck (e_attackPower e - defense p);
         let enemyDmg = max 1 d;
         p' \<leftarrow> Player_takeDamage p enemyDmg;
         let g2 = addMessage (g1\<lparr>m_player := Some p'\<rparr>)
                    (e_name e @ '' hits you for '' @ to_string enemyDmg @ '' damage!'');
         if \<not> Player_isAlive p'
         then Some (addMessage (g2\<lparr>m_state := GameOver\<rparr>) ''You have been slain!'')
         else Some g2
       }
       else do {
         ex \<leftarrow> ck (experience p + expReward e);
         go \<leftarrow> ck (gold p + goldReward e);
         Some (addMessage (g1\<lparr>m_player := Some (p\<lparr>experience := ex, gold := go\<rparr>)\<rparr>)
                 (''You defeated '' @ e_name e @ ''! +'' @ to_string (expReward e) @ '' XP''))
       }
     }"

subsection \<open>Game::spawnEnemies, Game::spawnItems\<close>

text \<open>
  The dimensions \<open>MAP_WIDTH\<close> and \<open>MAP_HEIGHT\<close> are constants of the missing header
  whose values the spec does not give: they are the parameters \<open>W\<close> and \<open>H\<close> of every
  operation that uses them. \<open>EntityId\<close> is a type of the missing header; identifiers are
  natural numbers here. The three distributions are constructed before the loop, the
  position is drawn x first, then the archetype.
\<close>

definition types :: "EnemyType list" where
  "types = [Goblin, Orc, Skeleton, Zombie, Rat, Spider, Dragon]"

function spawnEnemies_from :: "int \<Rightarrow> int \<Rightarrow> int \<Rightarrow> int \<Rightarrow> Game \<Rightarrow> Game option" where
  "spawnEnemies_from W H i count g =
     (if i < count
      then do {
        gen \<leftarrow> m_generator g;
        (x, r1) \<leftarrow> uniform_int 1 (W - 2) (m_rng gen);
        (y, r2) \<leftarrow> uniform_int 1 (H - 2) r1;
        (k, r3) \<leftarrow> uniform_int 0 6 r2;
        let e = new_Enemy (m_nextEntityId g) (types ! nat k) (x, y);
        spawnEnemies_from W H (i + 1) count
          (g\<lparr>m_generator := Some (gen\<lparr>m_rng := r3\<rparr>),
             m_nextEntityId := m_nextEntityId g + 1,
             m_enemies := m_enemies g @ [e]\<rparr>)
      }
      else Some g)"
  by pat_completeness auto
termination
  by (relation "measure (\<lambda>(W, H, i, count, g). nat (count - i))") auto

definition spawnEnemies :: "int \<Rightarrow> int \<Rightarrow> int \<Rightarrow> Game \<Rightarrow> Game option" where
  "spawnEnemies W H count g =
     (if 1 \<le> W - 2 \<and> 1 \<le> H - 2 then spawnEnemies_from W H 0 count g else None)"

function spawnItems_from :: "int \<Rightarrow> int \<Rightarrow> int \<Rightarrow> int \<Rightarrow> Game \<Rightarrow> Game option" where
  "spawnItems_from W H i count g =
     (if i < count
      then do {
        gen \<leftarrow> m_generator g;
        (x, r1) \<leftarrow> uniform_int 1 (W - 2) (m_rng gen);
        (y, r2) \<leftarrow> uniform_int 1 (H - 2) r1;
        let item = Item ''Health Potion'' Potion CHR ''!'' 20 0 25;
        spawnItems_from W H (i + 1) count
          (g\<lparr>m_generator := Some (gen\<lparr>m_rng := r2\<rparr>),
             m_floorItems := m_floorItems g @ [item]\<rparr>)
      }
      else Some g)"
  by pat_completeness auto
termination
  by (relation "measure (\<lambda>(W, H, i, count, g). nat (count - i))") auto

definition spawnItems :: "int \<Rightarrow> int \<Rightarrow> int \<Rightarrow> Game \<Rightarrow> Game option" where
  "spawnItems W H count g =
     (if 1 \<le> W - 2 \<and> 1 \<le> H - 2 then spawnItems_from W H 0 count g else None)"

subsection \<open>Game::nextLevel\<close>

definition nextLevel :: "int \<Rightarrow> int \<Rightarrow> Game \<Rightarrow> Game option" where
  "nextLevel W H g =
     do {
       p \<leftarrow> m_player g;
       dl \<leftarrow> ck (dungeonLevel p + 1);
       gen \<leftarrow> m_generator g;
       (m, gen') \<leftarrow> generate gen W H;
       let p' = p\<lparr>dungeonLevel := dl, pos := (W div 4 + 1, H div 4 + 1)\<rparr>;
       let g1 = g\<lparr>m_player := Some p', m_map := Some m, m_generator := Some gen',
                  m_enemies := []\<rparr>;
       n \<leftarrow> ck (5 + dungeonLevel p');
       g2 \<leftarrow> spawnEnemies W H n g1;
       g3 \<leftarrow> spawnItems W H 3 g2;
       Some (addMessage g3 (''You descend to dungeon level '' @ to_string (dungeonLevel p')))
     }"

subsection \<open>Game::handleMovement\<close>

text \<open>
  After the move the source reads the destination tile without a bounds check: inside
  the empty wall test when the destination is not walkable, and again for the stairs
  test.
\<close>

definition handleMovement :: "int \<Rightarrow> int \<Rightarrow> Game \<Rightarrow> Direction \<Rightarrow> Game option" where
  "handleMovement W H g dir =
     (case (m_player g, m_map g) of
        (Some p, Some m) \<Rightarrow>
          do {
            (r, p1) \<leftarrow> move p dir;
            let g1 = g\<lparr>m_player := Some p1\<rparr>;
            let (x, y) = pos p1;
            w \<leftarrow> isWalkable m x y;
            u \<leftarrow> (if \<not> w then map_option (\<lambda>t. ()) (getTile m x y) else Some ());
            g2 \<leftarrow> (case getEnemyAt g1 (pos p1) of
                     Some i \<Rightarrow> handleCombat g1 i
                   | None \<Rightarrow> Some g1);
            m2 \<leftarrow> m_map g2;
            t \<leftarrow> getTile m2 x y;
            if t_type t = StairsDown then nextLevel W H g2 else Some g2
          }
      | _ \<Rightarrow> Some g)"

subsection \<open>Game::newGame\<close>

definition newGame :: "int \<Rightarrow> int \<Rightarrow> Game \<Rightarrow> string \<Rightarrow> Game option" where
  "newGame W H g playerName =
     do {
       let p = new_Player (m_nextEntityId g) playerName (5, 5);
       let g1 = g\<lparr>m_player := Some p, m_nextEntityId := m_nextEntityId g + 1\<rparr>;
       gen \<leftarrow> m_generator g1;
       (m, gen') \<leftarrow> generate gen W H;
       let g2 = g1\<lparr>m_map := Some m, m_generator := Some gen',
                   m_player := Some (p\<lparr>pos := (W div 4 + 1, H div 4 + 1)\<rparr>)\<rparr>;
       g3 \<leftarrow> spawnEnemies W H 5 g2;
       g4 \<leftarrow> spawnItems W H 3 g3;
       Some (addMessage (g4\<lparr>m_state := Playing, m_messages := []\<rparr>)
               (''Welcome to the dungeon, '' @ playerName @ ''!''))
     }"

section \<open>Saving and loading\<close>

text \<open>
  The files are those of the standard library: a file system maps a name to the text of
  the file, if there is one, and says which names can be opened for writing. Opening for
  reading succeeds for a file that exists; writing to an open file succeeds.
\<close>

record FileSystem =
  contents :: "string \<Rightarrow> string option"
  can_write :: "string \<Rightarrow> bool"

definition newline :: char where
  "newline = CHR 0x0A"

text \<open>The text the three output statements of \<open>saveGame\<close> write.\<close>

definition save_text :: "Player \<Rightarrow> string" where
  "save_text p =
     name p @ [newline] @
     to_string (health p) @ '' '' @ to_string (maxHealth p) @ '' '' @
     to_string (attackPower p) @ '' '' @ to_string (defense p) @ [newline] @
     to_string (level p) @ '' '' @ to_string (experience p) @ '' '' @
     to_string (gold p) @ '' '' @ to_string (dungeonLevel p) @ [newline]"

definition saveGame :: "FileSystem \<Rightarrow> Game \<Rightarrow> string \<Rightarrow> (bool \<times> FileSystem) option" where
  "saveGame fs g filename =
     (if \<not> can_write fs filename then Some (False, fs)
      else do {
        p \<leftarrow> m_player g;
        Some (True, fs\<lparr>contents := (contents fs)(filename \<mapsto> save_text p)\<rparr>)
      })"

text \<open>
  An input stream is the text still to be read and two state bits; the stream is good
  while neither is set. \<open>std::getline\<close> reads up to the next newline, which it
  consumes and does not store; at the end of the text it sets the end-of-file bit, and
  the fail bit too when it read nothing.
\<close>

record istream =
  buf :: string
  failbit :: bool
  eofbit :: bool

definition getline :: "istream \<Rightarrow> string \<times> istream" where
  "getline s =
     (if failbit s \<or> eofbit s then ([], s\<lparr>failbit := True\<rparr>)
      else if newline \<in> set (buf s)
      then (takeWhile (\<lambda>c. c \<noteq> newline) (buf s),
            s\<lparr>buf := tl (dropWhile (\<lambda>c. c \<noteq> newline) (buf s))\<rparr>)
      else (buf s, s\<lparr>buf := [], eofbit := True, failbit := (buf s = [])\<rparr>))"

definition isspace_c :: "char \<Rightarrow> bool" where
  "isspace_c c = (c = CHR '' '' \<or> (9 \<le> (of_char c :: nat) \<and> (of_char c :: nat) \<le> 13))"

definition isdigit_c :: "char \<Rightarrow> bool" where
  "isdigit_c c = (48 \<le> (of_char c :: nat) \<and> (of_char c :: nat) \<le> 57)"

definition digit_val :: "char \<Rightarrow> nat" where
  "digit_val c = of_char c - 48"

definition nat_of_digits :: "string \<Rightarrow> nat" where
  "nat_of_digits ds = foldl (\<lambda>acc c. acc * 10 + digit_val c) 0 ds"

text \<open>
  \<open>operator>>(int&)\<close>. On a stream that is not good it sets the fail bit and leaves the
  variable alone (\<open>None\<close> as the value read). Otherwise it skips white space, then
  reads an optional sign and the longest run of digits. With no digit the variable
  becomes 0 and the fail bit is set; a value outside \<open>int\<close> is stored as the nearest
  bound with the fail bit set; reaching the end of the text sets the end-of-file bit.
\<close>

definition extract_int :: "istream \<Rightarrow> int option \<times> istream" where
  "extract_int s =
     (if failbit s \<or> eofbit s then (None, s\<lparr>failbit := True\<rparr>)
      else
        let b = dropWhile isspace_c (buf s) in
        if b = [] then (None, s\<lparr>buf := [], failbit := True, eofbit := True\<rparr>)
        else
          let neg = (hd b = CHR ''-'');
              b1 = (if hd b = CHR ''-'' \<or> hd b = CHR ''+'' then tl b else b);
              ds = takeWhile isdigit_c b1;
              rest = dropWhile isdigit_c b1;
              v = (if neg then - int (nat_of_digits ds) else int (nat_of_digits ds))
          in
            if ds = [] then (Some 0, s\<lparr>buf := rest, failbit := True, eofbit := (rest = [])\<rparr>)
            else if v > INT_MAX
            then (Some INT_MAX, s\<lparr>buf := rest, failbit := True, eofbit := (rest = [])\<rparr>)
            else if v < INT_MIN
            then (Some INT_MIN, s\<lparr>buf := rest, failbit := True, eofbit := (rest = [])\<rparr>)
            else (Some v, s\<lparr>buf := rest, eofbit := (rest = [])\<rparr>))"

text \<open>
  \<open>Game::loadGame\<close>. The eight locals are uninitialised; one that no extraction wrote
  is read with an indeterminate value when it is copied into the player, which is
  undefined behaviour.
\<close>

definition loadGame ::
  "FileSystem \<Rightarrow> int \<Rightarrow> int \<Rightarrow> Game \<Rightarrow> string \<Rightarrow> (bool \<times> Game) option" where
  "loadGame fs W H g filename =
     (case contents fs filename of
        None \<Rightarrow> Some (False, g)
      | Some text \<Rightarrow>
          let (nm, s0) = getline \<lparr>buf = text, failbit = False, eofbit = False\<rparr>;
              (hp, s1) = extract_int s0;
              (maxHp, s2) = extract_int s1;
              (atk, s3) = extract_int s2;
              (def, s4) = extract_int s3;
              (lvl, s5) = extract_int s4;
              (exp, s6) = extract_int s5;
              (gld, s7) = extract_int s6;
              (dlvl, s8) = extract_int s7;
              g1 = g\<lparr>m_nextEntityId := m_nextEntityId g + 1\<rparr>
          in do {
            hp' \<leftarrow> hp;
            maxHp' \<leftarrow> maxHp;
            atk' \<leftarrow> atk;
            def' \<leftarrow> def;
            lvl' \<leftarrow> lvl;
            exp' \<leftarrow> exp;
            gld' \<leftarrow> gld;
            dlvl' \<leftarrow> dlvl;
            let p = (new_Player (m_nextEntityId g) nm (5, 5))
                      \<lparr>health := hp', maxHealth := maxHp', attackPower := atk',
                       defense := def', level := lvl', experience := exp', gold := gld',
                       dungeonLevel := dlvl'\<rparr>;
            gen \<leftarrow> m_generator g1;
            (m, gen') \<leftarrow> generate gen W H;
            g2 \<leftarrow> spawnEnemies W H 5
                    (g1\<lparr>m_player := Some p, m_map := Some m, m_generator := Some gen'\<rparr>);
            Some (True, g2\<lparr>m_state := Playing\<rparr>)
          })"

section \<open>Observations on maps\<close>

text \<open>
  The vocabulary of the statements about maps. A map is well formed when its grid has
  \<open>m_height\<close> rows of \<open>m_width\<close> tiles each, as \<open>Map::Map\<close> builds it; the
  member functions keep it so.
\<close>

definition wf_map :: "Map \<Rightarrow> bool" where
  "wf_map m =
     (0 \<le> m_width m \<and> 0 \<le> m_height m \<and> length (m_tiles m) = nat (m_height m) \<and>
      list_all (\<lambda>row. length row = nat (m_width m)) (m_tiles m))"

text \<open>
  Two maps with the same dimensions and the same recorded stairs, the second well formed.
\<close>

definition same_frame :: "Map \<Rightarrow> Map \<Rightarrow> bool" where
  "same_frame m m' =
     (wf_map m' \<and> m_width m' = m_width m \<and> m_height m' = m_height m \<and>
      m_stairsDown m' = m_stairsDown m)"

text \<open>
  The cells of the room \<open>generate\<close> carves for a map of \<open>w\<close> by \<open>h\<close> cells:
  columns \<open>w/4 \<dots> w/4 + w/2 - 1\<close>, rows \<open>h/4 \<dots> h/4 + h/2 - 1\<close>.
\<close>

definition in_room :: "int \<Rightarrow> int \<Rightarrow> int \<Rightarrow> int \<Rightarrow> bool" where
  "in_room w h x y =
     (w div 4 \<le> x \<and> x < w div 4 + w div 2 \<and> h div 4 \<le> y \<and> y < h div 4 + h div 2)"

text \<open>
  The equations of the loops rewrite a call into one that contains a call: they are used
  by explicit substitution only.
\<close>

declare carve_row.simps [simp del]
declare carve_rows.simps [simp del]

text \<open>
  The position the two draws of \<open>generate\<close> give the stairs, read off the engine.
\<close>

definition stairs_of :: "DungeonGenerator \<Rightarrow> int \<Rightarrow> int \<Rightarrow> Position" where
  "stairs_of gen w h =
     (w div 4 + int (shd (m_rng gen) mod nat (w div 2)),
      h div 4 + int (shd (stl (m_rng gen)) mod nat (h div 2)))"

text \<open>
  Connectivity in the grid: \<open>reach m a b\<close> when \<open>b\<close> is reached from \<open>a\<close> by
  steps to one of the four neighbouring cells, over walkable cells only.
\<close>

inductive reach :: "Map \<Rightarrow> Position \<Rightarrow> Position \<Rightarrow> bool" for m :: Map and a :: Position where
  start: "isWalkable m (fst a) (snd a) = Some True \<Longrightarrow> reach m a a"
| east: "reach m a (x, y) \<Longrightarrow> isWalkable m (x + 1) y = Some True \<Longrightarrow> reach m a (x + 1, y)"
| west: "reach m a (x, y) \<Longrightarrow> isWalkable m (x - 1) y = Some True \<Longrightarrow> reach m a (x - 1, y)"
| south: "reach m a (x, y) \<Longrightarrow> isWalkable m x (y + 1) = Some True \<Longrightarrow> reach m a (x, y + 1)"
| north: "reach m a (x, y) \<Longrightarrow> isWalkable m x (y - 1) = Some True \<Longrightarrow> reach m a (x, y - 1)"

code_pred reach .

text \<open>
  The number of cells of a tile type, counted over the grid.
\<close>

definition count_type :: "Map \<Rightarrow> TileType \<Rightarrow> nat" where
  "count_type m T = length (filter (\<lambda>t. t_type t = T) (concat (m_tiles m)))"

section \<open>Observations on sessions\<close>

declare spawnEnemies_from.simps [simp del]
declare spawnItems_from.simps [simp del]

text \<open>
  The vocabulary of the statements about sessions. An enemy as \<open>spawnEnemies\<close> leaves
  it: untouched since its construction, with an identifier not below \<open>n\<close> and a
  position inside the outer border. The item \<open>spawnItems\<close> creates.
\<close>

definition spawned :: "int \<Rightarrow> int \<Rightarrow> EntityId \<Rightarrow> Enemy \<Rightarrow> bool" where
  "spawned W H n e =
     (e = new_Enemy (e_id e) (e_type e) (e_pos e) \<and> n \<le> e_id e \<and>
      1 \<le> fst (e_pos e) \<and> fst (e_pos e) \<le> W - 2 \<and>
      1 \<le> snd (e_pos e) \<and> snd (e_pos e) \<le> H - 2)"

definition potion :: Item where
  "potion = Item ''Health Potion'' Potion CHR ''!'' 20 0 25"

text \<open>
  The signed operations of one combat exchange between this player and this enemy stay
  in the range of \<open>int\<close>: the hit, then the retaliation or the two rewards.
\<close>

definition combat_in_range :: "Player \<Rightarrow> Enemy \<Rightarrow> bool" where
  "combat_in_range p e =
     (in_int (e_health e - attackPower p) \<and>
      (if 0 < e_health e - attackPower p
       then in_int (e_attackPower e - defense p) \<and>
            in_int (health p - max 1 (e_attackPower e - defense p))
       else in_int (experience p + expReward e) \<and> in_int (gold p + goldReward e)))"

text \<open>
  The position \<open>newGame\<close> and \<open>nextLevel\<close> give the player.
\<close>

definition spawn_point :: "int \<Rightarrow> int \<Rightarrow> Position" where
  "spawn_point W H = (W div 4 + 1, H div 4 + 1)"

text \<open>
  The destination of a move as the specification words it: North \<open>y - 1\<close>, South
  \<open>y + 1\<close>, East \<open>x + 2\<close>, West \<open>x - 1\<close>. It is compared with \<open>Player::move\<close>
  in \<open>move_spec_delta\<close> below.
\<close>

definition spec_delta :: "Direction \<Rightarrow> Position \<Rightarrow> Position" where
  "spec_delta dir xy =
     (case dir of
        North \<Rightarrow> (fst xy, snd xy - 1)
      | South \<Rightarrow> (fst xy, snd xy + 1)
      | East \<Rightarrow> (fst xy + 2, snd xy)
      | West \<Rightarrow> (fst xy - 1, snd xy))"

text \<open>
  A session to run the operations on: a constructed and initialised game, with 0 as the
  seed and \<open>r\<close> as the draws of the engine, in which the game of the player Hero is
  started on a map of \<open>W\<close> by \<open>H\<close> cells.
\<close>

definition demo_session :: "int \<Rightarrow> int \<Rightarrow> rng \<Rightarrow> Game option" where
  "demo_session W H r = newGame W H (snd (initialize 0 r new_Game)) ''Hero''"

section \<open>Observations on saved games\<close>

text \<open>
  The vocabulary of the statements about saved games: the player \<open>loadGame\<close> builds
  from the saved fields of a player; the eight numeric fields being values of \<open>int\<close>;
  the name and the eight numbers of a player, in the order of the file.
\<close>

definition loaded_Player :: "EntityId \<Rightarrow> Player \<Rightarrow> Player" where
  "loaded_Player i p =
     (new_Player i (name p) (5, 5))
       \<lparr>health := health p, maxHealth := maxHealth p, attackPower := attackPower p,
        defense := defense p, level := level p, experience := experience p, gold := gold p,
        dungeonLevel := dungeonLevel p\<rparr>"

definition stats_in_int :: "Player \<Rightarrow> bool" where
  "stats_in_int p =
     (in_int (health p) \<and> in_int (maxHealth p) \<and> in_int (attackPower p) \<and>
      in_int (defense p) \<and> in_int (level p) \<and> in_int (experience p) \<and> in_int (gold p) \<and>
      in_int (dungeonLevel p))"

text \<open>
  An empty file system in which every file can be written, and a session that holds a
  given player and a generator.
\<close>

definition demo_files :: FileSystem where
  "demo_files = \<lparr>contents = (\<lambda>f. None), can_write = (\<lambda>f. True)\<rparr>"

definition demo_saver :: "Player \<Rightarrow> Game" where
  "demo_saver p =
     new_Game\<lparr>m_player := Some p, m_generator := Some \<lparr>m_seed = 0, m_rng = sconst 0\<rparr>\<rparr>"

definition saved_stats :: "Player \<Rightarrow> string \<times> int list" where
  "saved_stats p =
     (name p, [health p, maxHealth p, attackPower p, defense p, level p, experience p, gold p,
               dungeonLevel p])"

section \<open>Properties of the entity model\<close>

lemma ck_Some: "in_int v \<Longrightarrow> ck v = Some v"
  by (simp add: ck_def)

lemma move_delta:
  assumes "pos p = (x, y)"
  shows "in_int (y - 1) \<Longrightarrow> move p North = Some (True, p\<lparr>pos := (x, y - 1)\<rparr>)"
    and "in_int (y + 1) \<Longrightarrow> move p South = Some (True, p\<lparr>pos := (x, y + 1)\<rparr>)"
    and "in_int (x + 2) \<Longrightarrow> move p East = Some (True, p\<lparr>pos := (x + 2, y)\<rparr>)"
    and "in_int (x - 1) \<Longrightarrow> move p West = Some (True, p\<lparr>pos := (x - 1, y)\<rparr>)"
  using assms by (simp_all add: move_def ck_def)

text \<open>
  Claim C2. The claim gives Player::move a step of 2 for East and for West and of 1 for
  North and for South, and says that a move followed by the opposite move returns to the
  starting position. The source steps 2 to the East and only 1 to the West: from (5, 5)
  a move West ends at (4, 5), a change of 1, and a move East followed by a move West
  ends at (6, 5), not at (5, 5).
\<close>

theorem move_West_steps_one:
  "map_option (\<lambda>r. pos (snd r)) (move (new_Player 1 ''Hero'' (5, 5)) West) = Some (4, 5) \<and>
   map_option (\<lambda>r. pos (snd r))
     (move (new_Player 1 ''Hero'' (5, 5)) East \<bind> (\<lambda>r. move (snd r) West)) = Some (6, 5)"
  by (simp add: move_def new_Player_def ck_def in_int_def INT_MIN_def INT_MAX_def)

text \<open>
  Claim C7. An enemy constructed with the Dragon archetype has current health 0 and
  maxHealth 200; an enemy of any other archetype is constructed with current health equal
  to its maxHealth.
\<close>

theorem Dragon_spawns_dead:
  "e_health (new_Enemy i Dragon p) = 0 \<and> e_maxHealth (new_Enemy i Dragon p) = 200 \<and>
   (t \<noteq> Dragon \<longrightarrow> e_health (new_Enemy i t p) = e_maxHealth (new_Enemy i t p))"
  by (cases t) (simp_all add: new_Enemy_def)

theorem Dragon_spawns_dead_witness:
  "e_health (new_Enemy 7 Dragon (3, 4)) = 0 \<and> e_maxHealth (new_Enemy 7 Dragon (3, 4)) = 200 \<and>
   Goblin \<noteq> Dragon \<and> e_health (new_Enemy 7 Goblin (3, 4)) = 20 \<and>
   e_maxHealth (new_Enemy 7 Goblin (3, 4)) = 20"
  using Dragon_spawns_dead [of 7 "(3, 4)" Goblin] by (simp add: new_Enemy_def)

section \<open>The message log\<close>

lemma addMessage_fields [simp]:
  "m_state (addMessage g s) = m_state g"
  "m_nextEntityId (addMessage g s) = m_nextEntityId g"
  "m_player (addMessage g s) = m_player g"
  "m_map (addMessage g s) = m_map g"
  "m_generator (addMessage g s) = m_generator g"
  "m_enemies (addMessage g s) = m_enemies g"
  "m_floorItems (addMessage g s) = m_floorItems g"
  by (simp_all add: addMessage_def Let_def)

lemma addMessage_messages:
  assumes "length (m_messages g) \<le> 5"
  shows "m_messages (addMessage g msg) =
         drop (length (m_messages g @ [msg]) - 5) (m_messages g @ [msg])"
proof (cases "length (m_messages g) = 5")
  case True
  then have "m_messages g \<noteq> []" by auto
  with True show ?thesis
    by (simp add: addMessage_def MAX_MESSAGES_def Let_def drop_Suc)
next
  case False
  with assms show ?thesis
    by (simp add: addMessage_def MAX_MESSAGES_def Let_def)
qed

lemma addMessage_length:
  "length (m_messages g) \<le> 5 \<Longrightarrow> length (m_messages (addMessage g msg)) \<le> 5"
  by (auto simp: addMessage_def MAX_MESSAGES_def Let_def)

text \<open>Keeping the newest \<open>n\<close> entries twice is keeping them once.\<close>

lemma drop_newest:
  fixes xs ys :: "'a list"
  shows "drop (length (drop (length xs - n) xs @ ys) - n) (drop (length xs - n) xs @ ys) =
         drop (length (xs @ ys) - n) (xs @ ys)"
proof -
  have "drop (length xs - n) xs @ ys = drop (length xs - n) (xs @ ys)"
    by simp
  then have "drop (length (drop (length xs - n) xs @ ys) - n) (drop (length xs - n) xs @ ys) =
             drop (length (drop (length xs - n) (xs @ ys)) - n + (length xs - n)) (xs @ ys)"
    by (simp only: drop_drop)
  also have "length (drop (length xs - n) (xs @ ys)) - n + (length xs - n) = length (xs @ ys) - n"
    by simp
  finally show ?thesis .
qed

lemma foldl_addMessage:
  "length (m_messages g) \<le> 5 \<Longrightarrow>
   m_messages (foldl addMessage g msgs) =
     drop (length (m_messages g @ msgs) - 5) (m_messages g @ msgs)"
proof (induction msgs arbitrary: g)
  case Nil
  then show ?case by simp
next
  case (Cons a msgs)
  have l: "length (m_messages (addMessage g a)) \<le> 5"
    using Cons.prems by (rule addMessage_length)
  have "m_messages (foldl addMessage g (a # msgs)) =
        drop (length (m_messages (addMessage g a) @ msgs) - 5) (m_messages (addMessage g a) @ msgs)"
    using Cons.IH [OF l] by simp
  also have "\<dots> = drop (length ((m_messages g @ [a]) @ msgs) - 5) ((m_messages g @ [a]) @ msgs)"
    unfolding addMessage_messages [OF Cons.prems] by (rule drop_newest)
  finally show ?case by simp
qed

text \<open>
  Claim C8. Starting from a log within the bound (the constructor and every \<open>clear\<close>
  leave it empty), after any sequence of addMessage calls the log holds at most 5
  entries, and they are the newest entries of the old log followed by the appended
  messages, in their order: the oldest are evicted first.
\<close>

theorem message_log_bounded_fifo:
  assumes "length (m_messages g) \<le> 5"
  shows "length (m_messages (foldl addMessage g msgs)) \<le> 5 \<and>
         m_messages (foldl addMessage g msgs) =
           drop (length (m_messages g @ msgs) - 5) (m_messages g @ msgs)"
  using foldl_addMessage [OF assms, of msgs] by simp

theorem message_log_bounded_fifo_witness:
  "m_messages (foldl addMessage new_Game [''a'', ''b'', ''c'', ''d'', ''e'', ''f'', ''g'']) =
     [''c'', ''d'', ''e'', ''f'', ''g'']"
  using message_log_bounded_fifo [of new_Game "[''a'', ''b'', ''c'', ''d'', ''e'', ''f'', ''g'']"]
  by (simp add: new_Game_def)

section \<open>The grid map and the generator\<close>

lemma wf_row_length:
  "wf_map m \<Longrightarrow> j < length (m_tiles m) \<Longrightarrow> length (m_tiles m ! j) = nat (m_width m)"
  by (simp add: wf_map_def list_all_length)

lemma getTile_wf:
  assumes "wf_map m"
  shows "getTile m x y =
         (if isValidPosition m x y then Some (m_tiles m ! nat y ! nat x) else None)"
proof (cases "isValidPosition m x y")
  case True
  then have y: "nat y < length (m_tiles m)"
    using assms by (simp add: isValidPosition_def wf_map_def)
  from True have "nat x < nat (m_width m)"
    by (simp add: isValidPosition_def)
  with y True show ?thesis
    using wf_row_length [OF assms y] by (simp add: getTile_def isValidPosition_def)
next
  case False
  show ?thesis
  proof (cases "0 \<le> y \<and> nat y < length (m_tiles m)")
    case True
    then have "length (m_tiles m ! nat y) = nat (m_width m)"
      using wf_row_length [OF assms] by simp
    with False True assms show ?thesis
      by (auto simp add: getTile_def isValidPosition_def wf_map_def)
  next
    case False
    then show ?thesis
      using \<open>\<not> isValidPosition m x y\<close> by (auto simp add: getTile_def)
  qed
qed

lemma new_Map_wf:
  assumes "0 \<le> w" and "0 \<le> h"
  shows "\<exists>m. new_Map w h = Some m \<and> wf_map m \<and> m_width m = w \<and> m_height m = h \<and>
           m_stairsDown m = INVALID_POSITION \<and>
           (\<forall>x y. getTile m x y = (if isValidPosition m x y then Some (tile_of Wall) else None))"
proof -
  let ?m = "\<lparr>m_width = w, m_height = h,
              m_tiles = replicate (nat h)
                (replicate (nat w) \<lparr>t_type = Wall, symbol = CHR ''#'', walkable = False\<rparr>),
              m_stairsDown = INVALID_POSITION\<rparr>"
  have n: "new_Map w h = Some ?m"
    using assms by (simp add: new_Map_def)
  have wf: "wf_map ?m"
    using assms by (simp add: wf_map_def list_all_length)
  have "getTile ?m x y = (if isValidPosition ?m x y then Some (tile_of Wall) else None)" for x y
    unfolding getTile_wf [OF wf] by (simp add: isValidPosition_def tile_of_def)
  with n wf show ?thesis by simp
qed

lemma setTile_wf:
  assumes "wf_map m"
  shows "\<exists>m'. setTile m x y t = Some m' \<and> same_frame m m' \<and>
           (\<forall>x' y'. getTile m' x' y' =
              (if x' = x \<and> y' = y \<and> isValidPosition m x y then Some (tile_of t)
               else getTile m x' y'))"
proof (cases "isValidPosition m x y")
  case False
  with assms show ?thesis
    by (simp add: setTile_def same_frame_def)
next
  case True
  let ?m' = "m\<lparr>m_tiles := (m_tiles m)[nat y := (m_tiles m ! nat y)[nat x := tile_of t]]\<rparr>"
  have y: "nat y < length (m_tiles m)"
    using True assms by (simp add: isValidPosition_def wf_map_def)
  have x: "nat x < length (m_tiles m ! nat y)"
    using True wf_row_length [OF assms y] by (simp add: isValidPosition_def)
  have s: "setTile m x y t = Some ?m'"
    using True x y by (simp add: setTile_def)
  have wf: "wf_map ?m'"
    using assms y by (auto simp add: wf_map_def list_all_length nth_list_update)
  have v: "isValidPosition ?m' x' y' = isValidPosition m x' y'" for x' y'
    by (simp add: isValidPosition_def)
  have "getTile ?m' x' y' = (if x' = x \<and> y' = y then Some (tile_of t) else getTile m x' y')"
    for x' y'
  proof (cases "isValidPosition m x' y'")
    case False
    with True show ?thesis
      unfolding getTile_wf [OF wf] getTile_wf [OF assms] v by auto
  next
    case v': True
    then have y': "nat y' < length (m_tiles m)"
      using assms by (simp add: isValidPosition_def wf_map_def)
    have x': "nat x' < length (m_tiles m ! nat y')"
      using v' wf_row_length [OF assms y'] by (simp add: isValidPosition_def)
    have e: "nat x' = nat x \<longleftrightarrow> x' = x" "nat y' = nat y \<longleftrightarrow> y' = y"
      using True v' by (auto simp add: isValidPosition_def)
    show ?thesis
      unfolding getTile_wf [OF wf] getTile_wf [OF assms] v
      using v' x' y' x y e by (auto simp add: nth_list_update)
  qed
  with s wf show ?thesis
    using True by (auto simp add: same_frame_def)
qed

lemma same_frame_valid:
  "same_frame m m' \<Longrightarrow> isValidPosition m' x y = isValidPosition m x y"
  by (simp add: same_frame_def isValidPosition_def)

lemma same_frame_refl: "wf_map m \<Longrightarrow> same_frame m m"
  by (simp add: same_frame_def)

lemma same_frame_trans: "same_frame a b \<Longrightarrow> same_frame b c \<Longrightarrow> same_frame a c"
  by (simp add: same_frame_def)

lemma carve_row_result:
  "wf_map m \<Longrightarrow>
   \<exists>m'. carve_row m y x xend width = Some m' \<and> same_frame m m' \<and>
     (\<forall>x' y'. getTile m' x' y' =
        (if y' = y \<and> x \<le> x' \<and> x' < xend \<and> x' < width - 1 \<and> isValidPosition m x' y'
         then Some (tile_of Floor) else getTile m x' y'))"
proof (induction m y x xend width rule: carve_row.induct)
  case (1 m y x xend width)
  show ?case
  proof (cases "x < xend \<and> x < width - 1")
    case False
    have "carve_row m y x xend width = Some m"
      using False by (subst carve_row.simps) auto
    with False "1.prems" show ?thesis
      by (auto simp add: same_frame_refl)
  next
    case True
    obtain m1 where s: "setTile m x y Floor = Some m1" and f: "same_frame m m1"
      and g: "\<And>x' y'. getTile m1 x' y' =
              (if x' = x \<and> y' = y \<and> isValidPosition m x y then Some (tile_of Floor)
               else getTile m x' y')"
      using setTile_wf [OF "1.prems", of x y Floor] by blast
    have wf1: "wf_map m1"
      using f by (simp add: same_frame_def)
    obtain m' where c: "carve_row m1 y (x + 1) xend width = Some m'" and f': "same_frame m1 m'"
      and g': "\<And>x' y'. getTile m' x' y' =
              (if y' = y \<and> x + 1 \<le> x' \<and> x' < xend \<and> x' < width - 1 \<and> isValidPosition m1 x' y'
               then Some (tile_of Floor) else getTile m1 x' y')"
      using "1.IH" [OF True s wf1] by blast
    have r: "carve_row m y x xend width = Some m'"
      by (subst carve_row.simps) (simp add: True s c)
    have "getTile m' x' y' =
            (if y' = y \<and> x \<le> x' \<and> x' < xend \<and> x' < width - 1 \<and> isValidPosition m x' y'
             then Some (tile_of Floor) else getTile m x' y')" for x' y'
      unfolding g' g same_frame_valid [OF f] using True by (cases "x' = x") auto
    with r same_frame_trans [OF f f'] show ?thesis by blast
  qed
qed

lemma carve_rows_result:
  "wf_map m \<Longrightarrow>
   \<exists>m'. carve_rows m y yend height roomX xend width = Some m' \<and> same_frame m m' \<and>
     (\<forall>x' y'. getTile m' x' y' =
        (if y \<le> y' \<and> y' < yend \<and> y' < height - 1 \<and>
            roomX \<le> x' \<and> x' < xend \<and> x' < width - 1 \<and> isValidPosition m x' y'
         then Some (tile_of Floor) else getTile m x' y'))"
proof (induction m y yend height roomX xend width rule: carve_rows.induct)
  case (1 m y yend height roomX xend width)
  show ?case
  proof (cases "y < yend \<and> y < height - 1")
    case False
    have "carve_rows m y yend height roomX xend width = Some m"
      using False by (subst carve_rows.simps) auto
    with False "1.prems" show ?thesis
      by (auto simp add: same_frame_refl)
  next
    case True
    obtain m1 where s: "carve_row m y roomX xend width = Some m1" and f: "same_frame m m1"
      and g: "\<And>x' y'. getTile m1 x' y' =
              (if y' = y \<and> roomX \<le> x' \<and> x' < xend \<and> x' < width - 1 \<and> isValidPosition m x' y'
               then Some (tile_of Floor) else getTile m x' y')"
      using carve_row_result [OF "1.prems", of y roomX xend width] by blast
    have wf1: "wf_map m1"
      using f by (simp add: same_frame_def)
    obtain m' where c: "carve_rows m1 (y + 1) yend height roomX xend width = Some m'"
      and f': "same_frame m1 m'"
      and g': "\<And>x' y'. getTile m' x' y' =
              (if y + 1 \<le> y' \<and> y' < yend \<and> y' < height - 1 \<and>
                  roomX \<le> x' \<and> x' < xend \<and> x' < width - 1 \<and> isValidPosition m1 x' y'
               then Some (tile_of Floor) else getTile m1 x' y')"
      using "1.IH" [OF True s wf1] by blast
    have r: "carve_rows m y yend height roomX xend width = Some m'"
      by (subst carve_rows.simps) (simp add: True s c)
    have "getTile m' x' y' =
            (if y \<le> y' \<and> y' < yend \<and> y' < height - 1 \<and>
                roomX \<le> x' \<and> x' < xend \<and> x' < width - 1 \<and> isValidPosition m x' y'
             then Some (tile_of Floor) else getTile m x' y')" for x' y'
      unfolding g' g same_frame_valid [OF f] using True by (cases "y' = y") auto
    with r same_frame_trans [OF f f'] show ?thesis by blast
  qed
qed

lemma in_room_valid:
  assumes "1 \<le> w" and "1 \<le> h" and "in_room w h x y"
  shows "0 \<le> x \<and> x < w - 1 \<and> 0 \<le> y \<and> y < h - 1"
  using assms unfolding in_room_def by auto

lemma in_room_stairs_of:
  assumes "2 \<le> w" and "2 \<le> h"
  shows "in_room w h (fst (stairs_of gen w h)) (snd (stairs_of gen w h))"
proof -
  have "0 < nat (w div 2)" "0 < nat (h div 2)"
    using assms by auto
  then have "shd (m_rng gen) mod nat (w div 2) < nat (w div 2)"
    and "shd (stl (m_rng gen)) mod nat (h div 2) < nat (h div 2)"
    by simp_all
  then have "int (shd (m_rng gen) mod nat (w div 2)) < w div 2"
    and "int (shd (stl (m_rng gen)) mod nat (h div 2)) < h div 2"
    by linarith+
  then show ?thesis
    by (simp add: in_room_def stairs_of_def)
qed

lemma getTile_setStairsDown [simp]: "getTile (setStairsDown m p) x y = getTile m x y"
  by (simp add: getTile_def setStairsDown_def)

lemma generate_result:
  assumes "2 \<le> w" and "2 \<le> h"
  shows "\<exists>m. generate gen w h = Some (m, gen\<lparr>m_rng := stl (stl (m_rng gen))\<rparr>) \<and>
           wf_map m \<and> m_width m = w \<and> m_height m = h \<and>
           m_stairsDown m = stairs_of gen w h \<and>
           (\<forall>x y. getTile m x y =
              (if isValidPosition m x y
               then Some (if (x, y) = stairs_of gen w h then tile_of StairsDown
                          else if in_room w h x y then tile_of Floor else tile_of Wall)
               else None))"
proof -
  obtain sx sy where st: "stairs_of gen w h = (sx, sy)"
    by (cases "stairs_of gen w h")
  have room: "in_room w h sx sy"
    using in_room_stairs_of [OF assms, of gen] st by simp
  obtain m0 where n: "new_Map w h = Some m0" and wf0: "wf_map m0"
    and d0: "m_width m0 = w" "m_height m0 = h"
    and g0: "\<And>x y. getTile m0 x y = (if isValidPosition m0 x y then Some (tile_of Wall) else None)"
    using new_Map_wf [of w h] assms by auto
  obtain m1 where c: "carve_rows m0 (h div 4) (h div 4 + h div 2) h (w div 4) (w div 4 + w div 2) w
                        = Some m1"
    and f1: "same_frame m0 m1"
    and g1: "\<And>x' y'. getTile m1 x' y' =
        (if h div 4 \<le> y' \<and> y' < h div 4 + h div 2 \<and> y' < h - 1 \<and>
            w div 4 \<le> x' \<and> x' < w div 4 + w div 2 \<and> x' < w - 1 \<and> isValidPosition m0 x' y'
         then Some (tile_of Floor) else getTile m0 x' y')"
    using carve_rows_result [OF wf0] by blast
  have wf1: "wf_map m1"
    using f1 by (simp add: same_frame_def)
  obtain m2 where s: "setTile m1 sx sy StairsDown = Some m2" and f2: "same_frame m1 m2"
    and g2: "\<And>x' y'. getTile m2 x' y' =
        (if x' = sx \<and> y' = sy \<and> isValidPosition m1 sx sy then Some (tile_of StairsDown)
         else getTile m1 x' y')"
    using setTile_wf [OF wf1, of sx sy StairsDown] by blast
  have f02: "same_frame m0 m2"
    using f1 f2 by (rule same_frame_trans)
  have u1: "uniform_int (w div 4) (w div 4 + w div 2 - 1) (m_rng gen) = Some (sx, stl (m_rng gen))"
    using assms st by (simp add: uniform_int_def stairs_of_def)
  have u2: "uniform_int (h div 4) (h div 4 + h div 2 - 1) (stl (m_rng gen))
              = Some (sy, stl (stl (m_rng gen)))"
    using assms st by (simp add: uniform_int_def stairs_of_def)
  have rng: "w div 4 \<le> w div 4 + w div 2 - 1 \<and> h div 4 \<le> h div 4 + h div 2 - 1"
    using assms by auto
  have gen: "generate gen w h =
               Some (setStairsDown m2 (sx, sy), gen\<lparr>m_rng := stl (stl (m_rng gen))\<rparr>)"
    using rng by (simp add: generate_def n c u1 u2 s Let_def)
  have v: "isValidPosition (setStairsDown m2 (sx, sy)) x y = isValidPosition m0 x y" for x y
    using same_frame_valid [OF f02] by (simp add: isValidPosition_def setStairsDown_def)
  have vs: "isValidPosition m0 sx sy"
    using in_room_valid [OF _ _ room] assms d0 by (simp add: isValidPosition_def)
  have tiles: "getTile (setStairsDown m2 (sx, sy)) x y =
          (if isValidPosition (setStairsDown m2 (sx, sy)) x y
           then Some (if (x, y) = (sx, sy) then tile_of StairsDown
                      else if in_room w h x y then tile_of Floor else tile_of Wall)
           else None)" for x y
  proof (cases "in_room w h x y")
    case True
    then have "isValidPosition m0 x y" "x < w - 1" "y < h - 1"
      using in_room_valid [OF _ _ True] assms d0 by (simp_all add: isValidPosition_def)
    with True show ?thesis
      unfolding v getTile_setStairsDown g2 g1 g0 same_frame_valid [OF f1]
      using vs by (auto simp add: in_room_def)
  next
    case False
    then have "(x, y) \<noteq> (sx, sy)"
      using room by auto
    with False show ?thesis
      unfolding v getTile_setStairsDown g2 g1 g0 same_frame_valid [OF f1]
      by (auto simp add: in_room_def)
  qed
  have "wf_map (setStairsDown m2 (sx, sy))"
    using f02 by (auto simp add: same_frame_def wf_map_def setStairsDown_def)
  moreover have "m_width (setStairsDown m2 (sx, sy)) = w" "m_height (setStairsDown m2 (sx, sy)) = h"
    using f02 d0 by (simp_all add: same_frame_def setStairsDown_def)
  moreover have "m_stairsDown (setStairsDown m2 (sx, sy)) = (sx, sy)"
    by (simp add: setStairsDown_def)
  ultimately show ?thesis
    using gen tiles unfolding st by blast
qed

lemma reach_east_n:
  "reach m a (x, y) \<Longrightarrow> \<forall>k. 0 < k \<and> k \<le> int n \<longrightarrow> isWalkable m (x + k) y = Some True \<Longrightarrow>
   reach m a (x + int n, y)"
proof (induction n)
  case 0
  then show ?case by simp
next
  case (Suc n)
  then have "reach m a (x + int n, y)" by simp
  moreover have "isWalkable m (x + int n + 1) y = Some True"
    using Suc.prems(2) by (simp add: add.assoc)
  ultimately have "reach m a (x + int n + 1, y)" by (rule reach.east)
  then show ?case by (simp add: algebra_simps)
qed

lemma reach_west_n:
  "reach m a (x, y) \<Longrightarrow> \<forall>k. 0 < k \<and> k \<le> int n \<longrightarrow> isWalkable m (x - k) y = Some True \<Longrightarrow>
   reach m a (x - int n, y)"
proof (induction n)
  case 0
  then show ?case by simp
next
  case (Suc n)
  then have "reach m a (x - int n, y)" by simp
  moreover have "isWalkable m (x - int n - 1) y = Some True"
    using Suc.prems(2) [rule_format, of "int n + 1"] by (simp add: algebra_simps)
  ultimately have "reach m a (x - int n - 1, y)" by (rule reach.west)
  then show ?case by (simp add: algebra_simps)
qed

lemma reach_south_n:
  "reach m a (x, y) \<Longrightarrow> \<forall>k. 0 < k \<and> k \<le> int n \<longrightarrow> isWalkable m x (y + k) = Some True \<Longrightarrow>
   reach m a (x, y + int n)"
proof (induction n)
  case 0
  then show ?case by simp
next
  case (Suc n)
  then have "reach m a (x, y + int n)" by simp
  moreover have "isWalkable m x (y + int n + 1) = Some True"
    using Suc.prems(2) by (simp add: add.assoc)
  ultimately have "reach m a (x, y + int n + 1)" by (rule reach.south)
  then show ?case by (simp add: algebra_simps)
qed

lemma reach_north_n:
  "reach m a (x, y) \<Longrightarrow> \<forall>k. 0 < k \<and> k \<le> int n \<longrightarrow> isWalkable m x (y - k) = Some True \<Longrightarrow>
   reach m a (x, y - int n)"
proof (induction n)
  case 0
  then show ?case by simp
next
  case (Suc n)
  then have "reach m a (x, y - int n)" by simp
  moreover have "isWalkable m x (y - int n - 1) = Some True"
    using Suc.prems(2) [rule_format, of "int n + 1"] by (simp add: algebra_simps)
  ultimately have "reach m a (x, y - int n - 1)" by (rule reach.north)
  then show ?case by (simp add: algebra_simps)
qed

text \<open>In a map whose walkable cells are a rectangle, every cell of it is reached from every other.\<close>

lemma reach_rectangle:
  assumes w: "\<And>x y. isWalkable m x y = Some (x0 \<le> x \<and> x < x1 \<and> y0 \<le> y \<and> y < y1)"
    and a: "x0 \<le> ax" "ax < x1" "y0 \<le> ay" "ay < y1"
    and b: "x0 \<le> bx" "bx < x1" "y0 \<le> by" "by < y1"
  shows "reach m (ax, ay) (bx, by)"
proof -
  have s: "reach m (ax, ay) (ax, ay)"
    using a by (intro reach.start) (simp add: w)
  have h: "reach m (ax, ay) (bx, ay)"
  proof (cases "ax \<le> bx")
    case True
    have "reach m (ax, ay) (ax + int (nat (bx - ax)), ay)"
      using s a b by (intro reach_east_n) (auto simp add: w)
    with True show ?thesis by simp
  next
    case False
    have "reach m (ax, ay) (ax - int (nat (ax - bx)), ay)"
      using s a b by (intro reach_west_n) (auto simp add: w)
    with False show ?thesis by simp
  qed
  show ?thesis
  proof (cases "ay \<le> by")
    case True
    have "reach m (ax, ay) (bx, ay + int (nat (by - ay)))"
      using h a b by (intro reach_south_n) (auto simp add: w)
    with True show ?thesis by simp
  next
    case False
    have "reach m (ax, ay) (bx, ay - int (nat (ay - by)))"
      using h a b by (intro reach_north_n) (auto simp add: w)
    with False show ?thesis by simp
  qed
qed

lemma filter_none:
  "\<forall>j<length xs. \<not> P (xs ! j) \<Longrightarrow> filter P xs = []"
  by (auto simp add: filter_empty_conv in_set_conv_nth)

lemma filter_one:
  assumes "k < length xs" and "P (xs ! k)" and "\<forall>j<length xs. j \<noteq> k \<longrightarrow> \<not> P (xs ! j)"
  shows "length (filter P xs) = 1"
proof -
  have xs: "xs = take k xs @ xs ! k # drop (Suc k) xs"
    using assms(1) by (rule id_take_nth_drop)
  have "filter P (take k xs) = []"
    using assms by (intro filter_none) auto
  moreover have "filter P (drop (Suc k) xs) = []"
    using assms by (intro filter_none) auto
  ultimately have "filter P (take k xs @ xs ! k # drop (Suc k) xs) = [xs ! k]"
    using assms(2) by simp
  with xs show ?thesis by simp
qed

lemma filter_concat_none:
  "\<forall>j<length xss. filter P (xss ! j) = [] \<Longrightarrow> filter P (concat xss) = []"
  by (induction xss) (auto simp add: nth_Cons split: nat.splits)

lemma filter_concat_row:
  assumes "k < length xss" and "\<forall>j<length xss. j \<noteq> k \<longrightarrow> filter P (xss ! j) = []"
  shows "filter P (concat xss) = filter P (xss ! k)"
proof -
  have xss: "xss = take k xss @ xss ! k # drop (Suc k) xss"
    using assms(1) by (rule id_take_nth_drop)
  have "filter P (concat (take k xss)) = []"
    using assms by (intro filter_concat_none) auto
  moreover have "filter P (concat (drop (Suc k) xss)) = []"
    using assms by (intro filter_concat_none) auto
  ultimately have "filter P (concat (take k xss @ xss ! k # drop (Suc k) xss)) = filter P (xss ! k)"
    by simp
  with xss show ?thesis by simp
qed

lemma count_type_one:
  assumes wf: "wf_map m" and v: "isValidPosition m sx sy"
    and t: "\<And>x y. isValidPosition m x y \<Longrightarrow>
              (t_type (m_tiles m ! nat y ! nat x) = T) = (x = sx \<and> y = sy)"
  shows "count_type m T = 1"
proof -
  let ?P = "\<lambda>t. t_type t = T"
  have len: "length (m_tiles m) = nat (m_height m)"
    using wf by (simp add: wf_map_def)
  have row: "length (m_tiles m ! j) = nat (m_width m)" if "j < length (m_tiles m)" for j
    using wf that by (rule wf_row_length)
  have cell: "?P (m_tiles m ! j ! i) = (int i = sx \<and> int j = sy)"
    if "j < length (m_tiles m)" and "i < nat (m_width m)" for i j
  proof -
    have "isValidPosition m (int i) (int j)"
      using that len by (simp add: isValidPosition_def) linarith
    from t [OF this] show ?thesis by simp
  qed
  have k: "nat sy < length (m_tiles m)"
    using v len by (simp add: isValidPosition_def)
  have other: "filter ?P (m_tiles m ! j) = []" if "j < length (m_tiles m)" and "j \<noteq> nat sy" for j
  proof (rule filter_none, intro allI impI)
    fix i assume "i < length (m_tiles m ! j)"
    then have "i < nat (m_width m)" using row [OF that(1)] by simp
    from cell [OF that(1) this] that(2) show "\<not> ?P (m_tiles m ! j ! i)" by auto
  qed
  have "length (filter ?P (m_tiles m ! nat sy)) = 1"
  proof (rule filter_one [where k = "nat sx"])
    show "nat sx < length (m_tiles m ! nat sy)"
      using v row [OF k] by (simp add: isValidPosition_def)
    show "?P (m_tiles m ! nat sy ! nat sx)"
      using t [OF v] v by simp
    show "\<forall>i<length (m_tiles m ! nat sy). i \<noteq> nat sx \<longrightarrow> \<not> ?P (m_tiles m ! nat sy ! i)"
    proof (intro allI impI)
      fix i assume "i < length (m_tiles m ! nat sy)" and "i \<noteq> nat sx"
      then have "i < nat (m_width m)" and "int i \<noteq> sx"
        using row [OF k] v by (auto simp add: isValidPosition_def)
      with cell [OF k] show "\<not> ?P (m_tiles m ! nat sy ! i)" by simp
    qed
  qed
  moreover have "filter ?P (concat (m_tiles m)) = filter ?P (m_tiles m ! nat sy)"
    using k other by (intro filter_concat_row) auto
  ultimately show ?thesis by (simp add: count_type_def)
qed

lemma isWalkable_wf:
  assumes "wf_map m"
  shows "isWalkable m x y =
         Some (isValidPosition m x y \<and> walkable (m_tiles m ! nat y ! nat x))"
  unfolding isWalkable_def getTile_wf [OF assms] by simp

lemma tile_of_simps [simp]:
  "t_type (tile_of T) = T"
  "walkable (tile_of T) = (T \<noteq> Wall)"
  by (cases T; simp add: tile_of_def)+

text \<open>
  Claim C4. For every width and height of at least 8 and every state of the random
  engine, generate returns a map of that size in which: the recorded stairsDown position
  is a cell of type StairsDown, it is the only such cell (as a statement about every
  cell, and as a count over the grid), it lies in the carved room; the walkable cells
  are exactly the cells of the room, each of them is reached from the stairs by unit
  steps through walkable cells, and each of them other than the stairs is Floor, of
  which there is at least one; every cell outside the room, and so every cell of the
  outer border, is the non-walkable Wall tile.
\<close>

theorem generate_room_and_stairs:
  assumes "8 \<le> w" and "8 \<le> h"
  shows "\<exists>m gen'. generate gen w h = Some (m, gen') \<and>
           m_width m = w \<and> m_height m = h \<and>
           getTile m (fst (m_stairsDown m)) (snd (m_stairsDown m)) = Some (tile_of StairsDown) \<and>
           (\<forall>x y t. getTile m x y = Some t \<and> t_type t = StairsDown \<longrightarrow> (x, y) = m_stairsDown m) \<and>
           count_type m StairsDown = 1 \<and>
           in_room w h (fst (m_stairsDown m)) (snd (m_stairsDown m)) \<and>
           (\<forall>x y. isWalkable m x y = Some (in_room w h x y)) \<and>
           (\<forall>x y. in_room w h x y \<longrightarrow> reach m (m_stairsDown m) (x, y)) \<and>
           (\<forall>x y. in_room w h x y \<and> (x, y) \<noteq> m_stairsDown m \<longrightarrow>
                    getTile m x y = Some (tile_of Floor)) \<and>
           (\<exists>x y. getTile m x y = Some (tile_of Floor)) \<and>
           (\<forall>x y. isValidPosition m x y \<and> \<not> in_room w h x y \<longrightarrow>
                    getTile m x y = Some (tile_of Wall)) \<and>
           (\<forall>x y. isValidPosition m x y \<and> (x = 0 \<or> y = 0 \<or> x = w - 1 \<or> y = h - 1) \<longrightarrow>
                    getTile m x y = Some (tile_of Wall) \<and> isWalkable m x y = Some False)"
proof -
  have w2: "2 \<le> w" and h2: "2 \<le> h" using assms by simp_all
  obtain m where g: "generate gen w h = Some (m, gen\<lparr>m_rng := stl (stl (m_rng gen))\<rparr>)"
    and wf: "wf_map m" and d: "m_width m = w" "m_height m = h"
    and st: "m_stairsDown m = stairs_of gen w h"
    and t: "\<And>x y. getTile m x y =
              (if isValidPosition m x y
               then Some (if (x, y) = stairs_of gen w h then tile_of StairsDown
                          else if in_room w h x y then tile_of Floor else tile_of Wall)
               else None)"
    using generate_result [OF w2 h2, of gen] by blast
  obtain sx sy where s: "stairs_of gen w h = (sx, sy)"
    by (cases "stairs_of gen w h")
  have room: "in_room w h sx sy"
    using in_room_stairs_of [OF w2 h2, of gen] s by simp
  have valid: "isValidPosition m x y" if "in_room w h x y" for x y
    using in_room_valid [OF _ _ that] assms d by (simp add: isValidPosition_def)
  have nth: "m_tiles m ! nat y ! nat x =
               (if (x, y) = (sx, sy) then tile_of StairsDown
                else if in_room w h x y then tile_of Floor else tile_of Wall)"
    if "isValidPosition m x y" for x y
    using t [of x y] that unfolding getTile_wf [OF wf] s by simp
  have walk: "isWalkable m x y = Some (in_room w h x y)" for x y
  proof (cases "isValidPosition m x y")
    case True
    then show ?thesis
      unfolding isWalkable_wf [OF wf] using nth [OF True] room by auto
  next
    case False
    then show ?thesis
      unfolding isWalkable_wf [OF wf] using valid by auto
  qed
  have c1: "getTile m sx sy = Some (tile_of StairsDown)"
    using t [of sx sy] valid [OF room] s by simp
  have c2: "(x, y) = (sx, sy)" if "getTile m x y = Some u" and "t_type u = StairsDown" for x y u
    using that unfolding t s by (auto split: if_splits)
  have c3: "count_type m StairsDown = 1"
  proof (rule count_type_one [OF wf valid [OF room]])
    fix x y assume "isValidPosition m x y"
    from nth [OF this] show "(t_type (m_tiles m ! nat y ! nat x) = StairsDown) = (x = sx \<and> y = sy)"
      by auto
  qed
  have c4: "reach m (sx, sy) (x, y)" if "in_room w h x y" for x y
  proof (rule reach_rectangle [where ?x0.0 = "w div 4" and ?x1.0 = "w div 4 + w div 2"
        and ?y0.0 = "h div 4" and ?y1.0 = "h div 4 + h div 2"])
    show "isWalkable m x y =
            Some (w div 4 \<le> x \<and> x < w div 4 + w div 2 \<and> h div 4 \<le> y \<and> y < h div 4 + h div 2)"
      for x y
      using walk [of x y] by (simp add: in_room_def)
  qed (use room that in \<open>simp_all add: in_room_def\<close>)
  have c5: "getTile m x y = Some (tile_of Floor)" if "in_room w h x y" and "(x, y) \<noteq> (sx, sy)"
    for x y
    using t [of x y] valid [OF that(1)] that s by auto
  have c6: "\<exists>x y. getTile m x y = Some (tile_of Floor)"
  proof (cases "(sx, sy) = (w div 4, h div 4)")
    case True
    have "in_room w h (w div 4 + 1) (h div 4)"
      using assms by (auto simp add: in_room_def)
    moreover have "(w div 4 + 1, h div 4) \<noteq> (sx, sy)"
      using True by simp
    ultimately show ?thesis using c5 by blast
  next
    case False
    have "in_room w h (w div 4) (h div 4)"
      using assms by (auto simp add: in_room_def)
    with False c5 [of "w div 4" "h div 4"] show ?thesis by auto
  qed
  have c7: "getTile m x y = Some (tile_of Wall)" if "isValidPosition m x y" and "\<not> in_room w h x y"
    for x y
    using t [of x y] that room s by auto
  have c8: "getTile m x y = Some (tile_of Wall) \<and> isWalkable m x y = Some False"
    if "isValidPosition m x y" and "x = 0 \<or> y = 0 \<or> x = w - 1 \<or> y = h - 1" for x y
  proof -
    have "\<not> in_room w h x y"
      using that(2) assms by (auto simp add: in_room_def)
    with that(1) c7 walk show ?thesis by simp
  qed
  have sd: "m_stairsDown m = (sx, sy)"
    using st s by simp
  show ?thesis
  proof (rule exI [of _ m], rule exI [of _ "gen\<lparr>m_rng := stl (stl (m_rng gen))\<rparr>"], intro conjI)
    show "generate gen w h = Some (m, gen\<lparr>m_rng := stl (stl (m_rng gen))\<rparr>)"
      by (rule g)
    show "m_width m = w" and "m_height m = h"
      by (rule d)+
    show "getTile m (fst (m_stairsDown m)) (snd (m_stairsDown m)) = Some (tile_of StairsDown)"
      using c1 by (simp add: sd)
    show "\<forall>x y t. getTile m x y = Some t \<and> t_type t = StairsDown \<longrightarrow> (x, y) = m_stairsDown m"
      using c2 unfolding sd by blast
    show "count_type m StairsDown = 1"
      by (rule c3)
    show "in_room w h (fst (m_stairsDown m)) (snd (m_stairsDown m))"
      using room by (simp add: sd)
    show "\<forall>x y. isWalkable m x y = Some (in_room w h x y)"
      using walk by blast
    show "\<forall>x y. in_room w h x y \<longrightarrow> reach m (m_stairsDown m) (x, y)"
      using c4 unfolding sd by blast
    show "\<forall>x y. in_room w h x y \<and> (x, y) \<noteq> m_stairsDown m \<longrightarrow>
                 getTile m x y = Some (tile_of Floor)"
      using c5 unfolding sd by blast
    show "\<exists>x y. getTile m x y = Some (tile_of Floor)"
      by (rule c6)
    show "\<forall>x y. isValidPosition m x y \<and> \<not> in_room w h x y \<longrightarrow>
                 getTile m x y = Some (tile_of Wall)"
      using c7 by blast
    show "\<forall>x y. isValidPosition m x y \<and> (x = 0 \<or> y = 0 \<or> x = w - 1 \<or> y = h - 1) \<longrightarrow>
                 getTile m x y = Some (tile_of Wall) \<and> isWalkable m x y = Some False"
      using c8 by blast
  qed
qed

theorem generate_room_and_stairs_witness:
  "\<exists>m gen'. generate \<lparr>m_seed = 42, m_rng = siterate Suc 5\<rparr> 8 8 = Some (m, gen') \<and>
     count_type m StairsDown = 1 \<and> reach m (m_stairsDown m) (5, 5) \<and>
     isWalkable m 2 2 = Some True \<and> getTile m 0 7 = Some (tile_of Wall)"
proof -
  have w: "(8::int) \<le> 8" by simp
  obtain m gen' where g: "generate \<lparr>m_seed = 42, m_rng = siterate Suc 5\<rparr> 8 8 = Some (m, gen')"
    and d: "m_width m = 8" "m_height m = 8"
    and c: "count_type m StairsDown = 1"
    and k: "\<forall>x y. isWalkable m x y = Some (in_room 8 8 x y)"
    and r: "\<forall>x y. in_room 8 8 x y \<longrightarrow> reach m (m_stairsDown m) (x, y)"
    and b: "\<forall>x y. isValidPosition m x y \<and> (x = 0 \<or> y = 0 \<or> x = 8 - 1 \<or> y = 8 - 1) \<longrightarrow>
               getTile m x y = Some (tile_of Wall) \<and> isWalkable m x y = Some False"
    using generate_room_and_stairs [OF w w, of "\<lparr>m_seed = 42, m_rng = siterate Suc 5\<rparr>"]
    by blast
  have "reach m (m_stairsDown m) (5, 5)"
    using r by (simp add: in_room_def)
  moreover have "isWalkable m 2 2 = Some True"
    using k by (simp add: in_room_def)
  moreover have "getTile m 0 7 = Some (tile_of Wall)"
    using b d by (simp add: isValidPosition_def)
  ultimately show ?thesis
    using g c by blast
qed

section \<open>Spawning\<close>

lemma uniform_int_range:
  assumes "a \<le> b"
  shows "\<exists>v. uniform_int a b r = Some (v, stl r) \<and> a \<le> v \<and> v \<le> b"
proof -
  have "0 < nat (b - a + 1)" using assms by simp
  then have "shd r mod nat (b - a + 1) < nat (b - a + 1)" by simp
  then have "int (shd r mod nat (b - a + 1)) \<le> b - a" by linarith
  then show ?thesis using assms by (simp add: uniform_int_def)
qed

lemma new_Enemy_fields [simp]:
  "e_id (new_Enemy i t p) = i" "e_type (new_Enemy i t p) = t" "e_pos (new_Enemy i t p) = p"
  by (cases t; simp add: new_Enemy_def)+

lemma spawned_mono: "spawned W H n e \<Longrightarrow> n' \<le> n \<Longrightarrow> spawned W H n' e"
  by (simp add: spawned_def)

lemma spawnEnemies_from_result:
  shows "3 \<le> W \<Longrightarrow> 3 \<le> H \<Longrightarrow> m_generator g \<noteq> None \<Longrightarrow>
    \<exists>g' es. spawnEnemies_from W H i count g = Some g' \<and>
      m_enemies g' = m_enemies g @ es \<and> length es = nat (count - i) \<and>
      list_all (spawned W H (m_nextEntityId g)) es \<and>
      m_generator g' \<noteq> None \<and> m_player g' = m_player g \<and> m_map g' = m_map g \<and>
      m_state g' = m_state g \<and> m_messages g' = m_messages g \<and>
      m_floorItems g' = m_floorItems g"
proof (induction W H i count g rule: spawnEnemies_from.induct)
  case (1 W H i count g)
  note assms = "1.prems"(1,2)
  show ?case
  proof (cases "i < count")
    case False
    have "spawnEnemies_from W H i count g = Some g"
      using False by (subst spawnEnemies_from.simps) auto
    with False "1.prems" show ?thesis by simp
  next
    case True
    obtain gen where gen: "m_generator g = Some gen"
      using "1.prems" by auto
    obtain x where x: "uniform_int 1 (W - 2) (m_rng gen) = Some (x, stl (m_rng gen))"
      and xr: "1 \<le> x" "x \<le> W - 2"
      using uniform_int_range [of 1 "W - 2" "m_rng gen"] assms by auto
    obtain y where y: "uniform_int 1 (H - 2) (stl (m_rng gen)) = Some (y, stl (stl (m_rng gen)))"
      and yr: "1 \<le> y" "y \<le> H - 2"
      using uniform_int_range [of 1 "H - 2" "stl (m_rng gen)"] assms by auto
    obtain k where k: "uniform_int 0 6 (stl (stl (m_rng gen))) = Some (k, stl (stl (stl (m_rng gen))))"
      using uniform_int_range [of 0 6 "stl (stl (m_rng gen))"] by auto
    let ?e = "new_Enemy (m_nextEntityId g) (types ! nat k) (x, y)"
    let ?g = "g\<lparr>m_generator := Some (gen\<lparr>m_rng := stl (stl (stl (m_rng gen)))\<rparr>),
                m_nextEntityId := m_nextEntityId g + 1, m_enemies := m_enemies g @ [?e]\<rparr>"
    have step: "spawnEnemies_from W H i count g = spawnEnemies_from W H (i + 1) count ?g"
      by (subst spawnEnemies_from.simps) (simp add: True gen x y k)
    have "m_generator ?g \<noteq> None" by simp
    from "1.IH" [OF True gen x refl y refl k refl refl assms this]
    obtain g' es where r: "spawnEnemies_from W H (i + 1) count ?g = Some g'"
      and es: "m_enemies g' = m_enemies ?g @ es" "length es = nat (count - (i + 1))"
        "list_all (spawned W H (m_nextEntityId ?g)) es"
      and fr: "m_generator g' \<noteq> None" "m_player g' = m_player ?g" "m_map g' = m_map ?g"
        "m_state g' = m_state ?g" "m_messages g' = m_messages ?g"
        "m_floorItems g' = m_floorItems ?g"
      by blast
    have e: "spawned W H (m_nextEntityId g) ?e"
      using xr yr by (simp add: spawned_def)
    have "list_all (spawned W H (m_nextEntityId g)) es"
      using es(3) by (auto simp add: list_all_iff intro: spawned_mono)
    with e have "list_all (spawned W H (m_nextEntityId g)) (?e # es)" by simp
    moreover have "m_enemies g' = m_enemies g @ ?e # es"
      using es(1) by simp
    moreover have "length (?e # es) = nat (count - i)"
      using es(2) True by simp
    ultimately show ?thesis
      using step r fr by (intro exI [of _ g'] exI [of _ "?e # es"]) simp
  qed
qed

lemma spawnItems_from_result:
  shows "3 \<le> W \<Longrightarrow> 3 \<le> H \<Longrightarrow> m_generator g \<noteq> None \<Longrightarrow>
    \<exists>g'. spawnItems_from W H i count g = Some g' \<and>
      m_floorItems g' = m_floorItems g @ replicate (nat (count - i)) potion \<and>
      m_generator g' \<noteq> None \<and> m_player g' = m_player g \<and> m_map g' = m_map g \<and>
      m_state g' = m_state g \<and> m_messages g' = m_messages g \<and>
      m_enemies g' = m_enemies g \<and> m_nextEntityId g' = m_nextEntityId g"
proof (induction W H i count g rule: spawnItems_from.induct)
  case (1 W H i count g)
  note assms = "1.prems"(1,2)
  show ?case
  proof (cases "i < count")
    case False
    have "spawnItems_from W H i count g = Some g"
      using False by (subst spawnItems_from.simps) auto
    with False "1.prems" show ?thesis by simp
  next
    case True
    obtain gen where gen: "m_generator g = Some gen"
      using "1.prems" by auto
    obtain x where x: "uniform_int 1 (W - 2) (m_rng gen) = Some (x, stl (m_rng gen))"
      using uniform_int_range [of 1 "W - 2" "m_rng gen"] assms by auto
    obtain y where y: "uniform_int 1 (H - 2) (stl (m_rng gen)) = Some (y, stl (stl (m_rng gen)))"
      using uniform_int_range [of 1 "H - 2" "stl (m_rng gen)"] assms by auto
    let ?g = "g\<lparr>m_generator := Some (gen\<lparr>m_rng := stl (stl (m_rng gen))\<rparr>),
                m_floorItems := m_floorItems g @ [potion]\<rparr>"
    have step: "spawnItems_from W H i count g = spawnItems_from W H (i + 1) count ?g"
      by (subst spawnItems_from.simps) (simp add: True gen x y potion_def)
    have "m_generator ?g \<noteq> None" by simp
    from "1.IH" [OF True gen x refl y refl _ assms this]
    obtain g' where r: "spawnItems_from W H (i + 1) count ?g = Some g'"
      and it: "m_floorItems g' = m_floorItems ?g @ replicate (nat (count - (i + 1))) potion"
      and fr: "m_generator g' \<noteq> None" "m_player g' = m_player ?g" "m_map g' = m_map ?g"
        "m_state g' = m_state ?g" "m_messages g' = m_messages ?g"
        "m_enemies g' = m_enemies ?g" "m_nextEntityId g' = m_nextEntityId ?g"
      by (auto simp add: potion_def)
    have "nat (count - i) = Suc (nat (count - (i + 1)))"
      using True by simp
    then have "m_floorItems g' = m_floorItems g @ replicate (nat (count - i)) potion"
      using it by simp
    then show ?thesis
      using step r fr by simp
  qed
qed

section \<open>Level transition and movement\<close>

lemma addMessage_messages_cong:
  "m_messages a = m_messages b \<Longrightarrow> m_messages (addMessage a s) = m_messages (addMessage b s)"
  by (simp add: addMessage_def Let_def)

lemma nextLevel_result:
  assumes p: "m_player g = Some p" and gen: "m_generator g = Some gen"
    and W: "3 \<le> W" and H: "3 \<le> H"
    and dl: "in_int (dungeonLevel p + 1)" and n: "in_int (5 + (dungeonLevel p + 1))"
  shows "\<exists>g' m gen'. nextLevel W H g = Some g' \<and> generate gen W H = Some (m, gen') \<and>
           m_map g' = Some m \<and>
           m_player g' = Some (p\<lparr>dungeonLevel := dungeonLevel p + 1, pos := spawn_point W H\<rparr>) \<and>
           length (m_enemies g') = nat (5 + (dungeonLevel p + 1)) \<and>
           list_all (spawned W H (m_nextEntityId g)) (m_enemies g') \<and>
           m_floorItems g' = m_floorItems g @ replicate 3 potion \<and>
           m_messages g' = m_messages (addMessage g
              (''You descend to dungeon level '' @ to_string (dungeonLevel p + 1))) \<and>
           m_state g' = m_state g"
proof -
  have "2 \<le> W" "2 \<le> H" using W H by simp_all
  then obtain m where m: "generate gen W H = Some (m, gen\<lparr>m_rng := stl (stl (m_rng gen))\<rparr>)"
    using generate_result [of W H gen] by blast
  let ?p = "p\<lparr>dungeonLevel := dungeonLevel p + 1, pos := (W div 4 + 1, H div 4 + 1)\<rparr>"
  let ?g1 = "g\<lparr>m_player := Some ?p, m_map := Some m,
               m_generator := Some (gen\<lparr>m_rng := stl (stl (m_rng gen))\<rparr>), m_enemies := []\<rparr>"
  have g1: "m_generator ?g1 \<noteq> None" by simp
  obtain g2 es where s2: "spawnEnemies_from W H 0 (5 + (dungeonLevel p + 1)) ?g1 = Some g2"
    and e2: "m_enemies g2 = m_enemies ?g1 @ es" "length es = nat (5 + (dungeonLevel p + 1) - 0)"
      "list_all (spawned W H (m_nextEntityId ?g1)) es"
    and f2: "m_generator g2 \<noteq> None" "m_player g2 = m_player ?g1" "m_map g2 = m_map ?g1"
      "m_state g2 = m_state ?g1" "m_messages g2 = m_messages ?g1"
      "m_floorItems g2 = m_floorItems ?g1"
    using spawnEnemies_from_result [OF W H g1, of 0 "5 + (dungeonLevel p + 1)"] by blast
  obtain g3 where s3: "spawnItems_from W H 0 3 g2 = Some g3"
    and i3: "m_floorItems g3 = m_floorItems g2 @ replicate (nat (3 - 0)) potion"
    and f3: "m_player g3 = m_player g2" "m_map g3 = m_map g2" "m_state g3 = m_state g2"
      "m_messages g3 = m_messages g2" "m_enemies g3 = m_enemies g2"
    using spawnItems_from_result [OF W H f2(1), of 0 3] by blast
  let ?msg = "''You descend to dungeon level '' @ to_string (dungeonLevel p + 1)"
  have r: "nextLevel W H g = Some (addMessage g3 ?msg)"
    using W H dl n s2 s3
    by (simp add: nextLevel_def p gen m ck_def Let_def spawnEnemies_def spawnItems_def)
  have "m_messages (addMessage g3 ?msg) = m_messages (addMessage g ?msg)"
    by (rule addMessage_messages_cong) (simp add: f3 f2)
  moreover have "nat (3 - 0) = 3" by simp
  ultimately show ?thesis
    using r m e2 f2 i3 f3 by (simp add: spawn_point_def)
qed

lemma getEnemyAt_loop_Some:
  "getEnemyAt_loop es p = Some i \<Longrightarrow>
   i < length es \<and> e_pos (es ! i) = p \<and> 0 < e_health (es ! i)"
proof (induction es arbitrary: i)
  case Nil
  then show ?case by simp
next
  case (Cons e es)
  then show ?case
    by (auto simp add: Enemy_isAlive_def split: if_splits)
qed

lemma getEnemyAt_loop_None:
  "list_all (\<lambda>e. e_pos e = p \<longrightarrow> e_health e \<le> 0) es \<Longrightarrow> getEnemyAt_loop es p = None"
  by (induction es) (auto simp add: Enemy_isAlive_def)

lemma handleCombat_frame:
  assumes "handleCombat g i = Some g'"
  shows "m_map g' = m_map g \<and> m_generator g' = m_generator g \<and>
         m_floorItems g' = m_floorItems g \<and> m_nextEntityId g' = m_nextEntityId g \<and>
         (\<exists>p p'. m_player g = Some p \<and> m_player g' = Some p' \<and> pos p' = pos p \<and>
                  dungeonLevel p' = dungeonLevel p)"
  using assms
  by (auto simp add: handleCombat_def Let_def Enemy_takeDamage_def Player_takeDamage_def
      split: if_splits Option.bind_splits)

lemma handleCombat_defined:
  assumes "m_player g = Some p" and "i < length (m_enemies g)"
    and "combat_in_range p (m_enemies g ! i)"
  shows "\<exists>g'. handleCombat g i = Some g'"
  using assms
  by (auto simp add: handleCombat_def Let_def Enemy_takeDamage_def Player_takeDamage_def
      combat_in_range_def ck_def Enemy_isAlive_def split: if_splits)

lemma handleMovement_steps:
  assumes p: "m_player g = Some p" and m: "m_map g = Some m"
    and mv: "move p dir = Some (r, p1)"
    and t: "getTile m (fst (pos p1)) (snd (pos p1)) = Some t"
  shows "handleMovement W H g dir =
           (case getEnemyAt (g\<lparr>m_player := Some p1\<rparr>) (pos p1) of
              Some i \<Rightarrow> handleCombat (g\<lparr>m_player := Some p1\<rparr>) i
            | None \<Rightarrow> Some (g\<lparr>m_player := Some p1\<rparr>))
           \<bind> (\<lambda>g2. if t_type t = StairsDown then nextLevel W H g2 else Some g2)"
proof -
  let ?g1 = "g\<lparr>m_player := Some p1\<rparr>"
  obtain x y where xy: "pos p1 = (x, y)" by (cases "pos p1")
  have t': "getTile m x y = Some t"
    using t xy by simp
  have w: "isWalkable m x y = Some (isValidPosition m x y \<and> walkable t)"
    by (simp add: isWalkable_def t')
  have head: "handleMovement W H g dir =
      (case getEnemyAt ?g1 (pos p1) of Some i \<Rightarrow> handleCombat ?g1 i | None \<Rightarrow> Some ?g1)
      \<bind> (\<lambda>g2. m_map g2 \<bind> (\<lambda>m2. getTile m2 x y \<bind>
             (\<lambda>t. if t_type t = StairsDown then nextLevel W H g2 else Some g2)))"
    by (simp add: handleMovement_def p m mv xy w t' Let_def)
  show ?thesis
  proof (cases "case getEnemyAt ?g1 (pos p1) of Some i \<Rightarrow> handleCombat ?g1 i | None \<Rightarrow> Some ?g1")
    case None
    then show ?thesis unfolding head by simp
  next
    case (Some g2)
    have "m_map g2 = Some m"
    proof (cases "getEnemyAt ?g1 (pos p1)")
      case None
      with Some m show ?thesis by auto
    next
      case (Some i)
      with \<open>_ = Some g2\<close> have "handleCombat ?g1 i = Some g2" by simp
      from handleCombat_frame [OF this] m show ?thesis by simp
    qed
    with Some t xy show ?thesis unfolding head by simp
  qed
qed

section \<open>Movement\<close>

lemma move_spec_delta:
  assumes "in_int (fst (spec_delta dir (pos p)))" and "in_int (snd (spec_delta dir (pos p)))"
  shows "move p dir = Some (True, p\<lparr>pos := spec_delta dir (pos p)\<rparr>)"
  using assms by (cases dir; cases "pos p") (simp_all add: move_def spec_delta_def ck_def)

lemma combat_in_range_pos [simp]:
  "combat_in_range (p\<lparr>pos := d\<rparr>) = combat_in_range p"
  by (rule ext) (simp add: combat_in_range_def)

lemma last_addMessage: "last (m_messages (addMessage g s)) = s"
proof (cases "m_messages g")
  case Nil
  then show ?thesis by (simp add: addMessage_def Let_def MAX_MESSAGES_def)
next
  case (Cons a ms)
  then show ?thesis by (simp add: addMessage_def Let_def MAX_MESSAGES_def)
qed

lemma combat_step_defined:
  assumes p: "m_player g = Some p" and c: "list_all (combat_in_range p) (m_enemies g)"
  shows "\<exists>g2. (case getEnemyAt g d of Some i \<Rightarrow> handleCombat g i | None \<Rightarrow> Some g) = Some g2 \<and>
           m_map g2 = m_map g \<and> m_generator g2 = m_generator g \<and>
           m_floorItems g2 = m_floorItems g \<and> m_nextEntityId g2 = m_nextEntityId g \<and>
           (\<exists>p2. m_player g2 = Some p2 \<and> pos p2 = pos p \<and> dungeonLevel p2 = dungeonLevel p)"
proof (cases "getEnemyAt g d")
  case None
  with p show ?thesis by simp
next
  case (Some i)
  then have i: "i < length (m_enemies g)"
    using getEnemyAt_loop_Some [of "m_enemies g" d i] by (simp add: getEnemyAt_def)
  with c have "combat_in_range p (m_enemies g ! i)"
    by (simp add: list_all_length)
  from handleCombat_defined [OF p i this] obtain g2 where g2: "handleCombat g i = Some g2"
    by blast
  from handleCombat_frame [OF g2] p Some g2 show ?thesis by auto
qed



lemma generate_tile:
  assumes "2 \<le> w" and "2 \<le> h"
  shows "\<exists>m. generate gen w h = Some (m, gen\<lparr>m_rng := stl (stl (m_rng gen))\<rparr>) \<and>
           (\<forall>x y. 0 \<le> x \<and> x < w \<and> 0 \<le> y \<and> y < h \<longrightarrow>
              getTile m x y =
                Some (if (x, y) = stairs_of gen w h then tile_of StairsDown
                      else if in_room w h x y then tile_of Floor else tile_of Wall))"
proof -
  obtain m where g: "generate gen w h = Some (m, gen\<lparr>m_rng := stl (stl (m_rng gen))\<rparr>)"
    and d: "m_width m = w" "m_height m = h"
    and t: "\<And>x y. getTile m x y =
              (if isValidPosition m x y
               then Some (if (x, y) = stairs_of gen w h then tile_of StairsDown
                          else if in_room w h x y then tile_of Floor else tile_of Wall)
               else None)"
    using generate_result [OF assms, of gen] by blast
  show ?thesis
    by (rule exI [of _ m]) (simp add: g t isValidPosition_def d)
qed



lemma demo_session_dragon_south:
  "\<exists>m. demo_session 8 8 (shift [0, 0, 2, 3, 6] (sconst 0)) =
       Some \<lparr>m_state = Playing, m_nextEntityId = 7,
             m_player = Some ((new_Player 1 ''Hero'' (5, 5))\<lparr>pos := (3, 3)\<rparr>),
             m_map = Some m, m_generator = Some \<lparr>m_seed = 0, m_rng = sconst 0\<rparr>,
             m_enemies = [new_Enemy 2 Dragon (3, 4), new_Enemy 3 Goblin (1, 1),
               new_Enemy 4 Goblin (1, 1), new_Enemy 5 Goblin (1, 1), new_Enemy 6 Goblin (1, 1)],
             m_floorItems = [potion, potion, potion],
             m_messages = [''Welcome to the dungeon, Hero!'']\<rparr> \<and>
     getTile m 3 4 = Some (tile_of Floor)"
proof -
  let ?gen = "\<lparr>m_seed = 0, m_rng = shift [0, 0, 2, 3, 6] (sconst 0)\<rparr>"
  obtain m where g: "generate ?gen 8 8 = Some (m, ?gen\<lparr>m_rng := stl (stl (m_rng ?gen))\<rparr>)"
    and t: "\<forall>x y. 0 \<le> x \<and> x < 8 \<and> 0 \<le> y \<and> y < 8 \<longrightarrow> getTile m x y =
                Some (if (x, y) = stairs_of ?gen 8 8 then tile_of StairsDown
                      else if in_room 8 8 x y then tile_of Floor else tile_of Wall)"
    using generate_tile [of 8 8 ?gen] by auto
  have tile: "getTile m 3 4 = Some (tile_of Floor)"
    using t by (simp add: stairs_of_def in_room_def)
  show ?thesis
    using tile g
    by (simp add: demo_session_def newGame_def initialize_def new_Game_def Let_def
        spawnEnemies_def spawnItems_def spawnEnemies_from.simps spawnItems_from.simps
        uniform_int_def addMessage_def MAX_MESSAGES_def types_def potion_def)
      (simp add: eval_nat_numeral)
qed



lemma nextLevel_Some_pre:
  assumes "nextLevel W H g = Some g'"
  shows "\<exists>p gen. m_player g = Some p \<and> m_generator g = Some gen \<and> 3 \<le> W \<and> 3 \<le> H \<and>
           in_int (dungeonLevel p + 1) \<and> in_int (5 + (dungeonLevel p + 1))"
proof -
  obtain p where p: "m_player g = Some p"
    using assms by (cases "m_player g") (simp_all add: nextLevel_def)
  have dl: "in_int (dungeonLevel p + 1)"
    using assms p by (auto simp add: nextLevel_def ck_def split: if_splits)
  obtain gen where gen: "m_generator g = Some gen"
    using assms p dl by (cases "m_generator g") (simp_all add: nextLevel_def ck_def)
  obtain m gen' where m: "generate gen W H = Some (m, gen')"
    using assms p dl gen by (cases "generate gen W H") (auto simp add: nextLevel_def ck_def)
  have n: "in_int (5 + (dungeonLevel p + 1))"
    using assms p dl gen m by (auto simp add: nextLevel_def ck_def Let_def split: if_splits)
  have "1 \<le> W - 2 \<and> 1 \<le> H - 2"
    using assms p dl gen m n
    by (auto simp add: nextLevel_def ck_def Let_def spawnEnemies_def split: if_splits)
  with p gen dl n show ?thesis by simp
qed

lemma nextLevel_frame:
  assumes "nextLevel W H g = Some g'"
  shows "\<exists>p p'. m_player g = Some p \<and> m_player g' = Some p' \<and> health p' = health p \<and>
           experience p' = experience p \<and> gold p' = gold p \<and> m_state g' = m_state g"
proof -
  obtain p gen where a: "m_player g = Some p" "m_generator g = Some gen" "3 \<le> W" "3 \<le> H"
    "in_int (dungeonLevel p + 1)" "in_int (5 + (dungeonLevel p + 1))"
    using nextLevel_Some_pre [OF assms] by blast
  from nextLevel_result [OF a] assms a(1) show ?thesis by auto
qed

section \<open>Dead enemies and the new game\<close>

text \<open>
  Claim C10. getEnemyAt returns an enemy only if its health is above 0. Consequently,
  when every enemy on the destination cell has health at most 0, handleMovement does
  exactly what it does with no enemy there: it moves the player and, on a StairsDown
  tile, runs the level transition. Whenever it returns, the player's health, experience
  and gold and the game state are unchanged; off the stairs the enemies and the message
  log are unchanged too.
\<close>

theorem dead_enemies_are_not_fought:
  "(\<forall>d i. getEnemyAt g d = Some i \<longrightarrow>
      i < length (m_enemies g) \<and> e_pos (m_enemies g ! i) = d \<and> 0 < e_health (m_enemies g ! i)) \<and>
   (\<forall>p m t. m_player g = Some p \<and> m_map g = Some m \<and>
       in_int (fst (spec_delta dir (pos p))) \<and> in_int (snd (spec_delta dir (pos p))) \<and>
       getTile m (fst (spec_delta dir (pos p))) (snd (spec_delta dir (pos p))) = Some t \<and>
       list_all (\<lambda>e. e_pos e = spec_delta dir (pos p) \<longrightarrow> e_health e \<le> 0) (m_enemies g) \<longrightarrow>
       getEnemyAt g (spec_delta dir (pos p)) = None \<and>
       handleMovement W H g dir =
         (if t_type t = StairsDown
          then nextLevel W H (g\<lparr>m_player := Some (p\<lparr>pos := spec_delta dir (pos p)\<rparr>)\<rparr>)
          else Some (g\<lparr>m_player := Some (p\<lparr>pos := spec_delta dir (pos p)\<rparr>)\<rparr>)) \<and>
       (\<forall>g'. handleMovement W H g dir = Some g' \<longrightarrow>
          (\<exists>p'. m_player g' = Some p' \<and> health p' = health p \<and>
                experience p' = experience p \<and> gold p' = gold p) \<and>
          m_state g' = m_state g \<and>
          (t_type t \<noteq> StairsDown \<longrightarrow>
             m_enemies g' = m_enemies g \<and> m_messages g' = m_messages g)))"
proof -
  have A: "i < length (m_enemies g) \<and> e_pos (m_enemies g ! i) = d \<and>
           0 < e_health (m_enemies g ! i)" if "getEnemyAt g d = Some i" for d i
    using that getEnemyAt_loop_Some [of "m_enemies g" d i] by (simp add: getEnemyAt_def)
  have B: "getEnemyAt g (spec_delta dir (pos p)) = None \<and>
       handleMovement W H g dir =
         (if t_type t = StairsDown
          then nextLevel W H (g\<lparr>m_player := Some (p\<lparr>pos := spec_delta dir (pos p)\<rparr>)\<rparr>)
          else Some (g\<lparr>m_player := Some (p\<lparr>pos := spec_delta dir (pos p)\<rparr>)\<rparr>)) \<and>
       (\<forall>g'. handleMovement W H g dir = Some g' \<longrightarrow>
          (\<exists>p'. m_player g' = Some p' \<and> health p' = health p \<and>
                experience p' = experience p \<and> gold p' = gold p) \<and>
          m_state g' = m_state g \<and>
          (t_type t \<noteq> StairsDown \<longrightarrow>
             m_enemies g' = m_enemies g \<and> m_messages g' = m_messages g))"
    if a: "m_player g = Some p \<and> m_map g = Some m \<and>
       in_int (fst (spec_delta dir (pos p))) \<and> in_int (snd (spec_delta dir (pos p))) \<and>
       getTile m (fst (spec_delta dir (pos p))) (snd (spec_delta dir (pos p))) = Some t \<and>
       list_all (\<lambda>e. e_pos e = spec_delta dir (pos p) \<longrightarrow> e_health e \<le> 0) (m_enemies g)"
    for p m t
  proof -
    let ?p1 = "p\<lparr>pos := spec_delta dir (pos p)\<rparr>"
    let ?g1 = "g\<lparr>m_player := Some ?p1\<rparr>"
    have none: "getEnemyAt_loop (m_enemies g) (spec_delta dir (pos p)) = None"
      using a by (intro getEnemyAt_loop_None) simp
    then have n: "getEnemyAt g (spec_delta dir (pos p)) = None"
      by (simp add: getEnemyAt_def)
    have mv: "move p dir = Some (True, ?p1)"
      using a by (intro move_spec_delta) simp_all
    have t: "getTile m (fst (pos ?p1)) (snd (pos ?p1)) = Some t"
      using a by simp
    have "handleMovement W H g dir =
        (case getEnemyAt ?g1 (pos ?p1) of Some i \<Rightarrow> handleCombat ?g1 i | None \<Rightarrow> Some ?g1)
        \<bind> (\<lambda>g2. if t_type t = StairsDown then nextLevel W H g2 else Some g2)"
      using a by (intro handleMovement_steps [OF _ _ mv t]) simp_all
    moreover have "getEnemyAt ?g1 (pos ?p1) = None"
      using none by (simp add: getEnemyAt_def)
    ultimately have hm: "handleMovement W H g dir =
        (if t_type t = StairsDown then nextLevel W H ?g1 else Some ?g1)"
      by simp
    have fr: "(\<exists>p'. m_player g' = Some p' \<and> health p' = health p \<and>
                experience p' = experience p \<and> gold p' = gold p) \<and>
          m_state g' = m_state g \<and>
          (t_type t \<noteq> StairsDown \<longrightarrow>
             m_enemies g' = m_enemies g \<and> m_messages g' = m_messages g)"
      if r: "handleMovement W H g dir = Some g'" for g'
    proof (cases "t_type t = StairsDown")
      case True
      with r hm have "nextLevel W H ?g1 = Some g'" by simp
      from nextLevel_frame [OF this] True show ?thesis by auto
    next
      case False
      with r hm have "g' = ?g1" by simp
      then show ?thesis by simp
    qed
    from n hm fr show ?thesis by blast
  qed
  from A B show ?thesis by blast
qed

theorem dead_enemies_are_not_fought_witness:
  "\<exists>g p. demo_session 8 8 (shift [0, 0, 2, 3, 6] (sconst 0)) = Some g \<and> m_player g = Some p \<and>
     pos p = (3, 3) \<and>
     map (\<lambda>e. (e_type e, e_health e)) (filter (\<lambda>e. e_pos e = (3, 4)) (m_enemies g)) = [(Dragon, 0)] \<and>
     getEnemyAt g (3, 4) = None \<and>
     handleMovement 8 8 g South = Some (g\<lparr>m_player := Some (p\<lparr>pos := (3, 4)\<rparr>)\<rparr>)"
proof -
  let ?p = "(new_Player 1 ''Hero'' (5, 5))\<lparr>pos := (3, 3)\<rparr>"
  let ?gen = "\<lparr>m_seed = 0, m_rng = sconst 0\<rparr>"
  let ?g = "\<lambda>m. \<lparr>m_state = Playing, m_nextEntityId = 7, m_player = Some ?p,
             m_map = Some m, m_generator = Some ?gen,
             m_enemies = [new_Enemy 2 Dragon (3, 4), new_Enemy 3 Goblin (1, 1),
               new_Enemy 4 Goblin (1, 1), new_Enemy 5 Goblin (1, 1), new_Enemy 6 Goblin (1, 1)],
             m_floorItems = [potion, potion, potion],
             m_messages = [''Welcome to the dungeon, Hero!'']\<rparr>"
  obtain m where s: "demo_session 8 8 (shift [0, 0, 2, 3, 6] (sconst 0)) = Some (?g m)"
    and t: "getTile m 3 4 = Some (tile_of Floor)"
    using demo_session_dragon_south by blast
  have d: "spec_delta South (pos ?p) = (3, 4)"
    by (simp add: spec_delta_def)
  have dead: "list_all (\<lambda>e. e_pos e = (3, 4) \<longrightarrow> e_health e \<le> 0) (m_enemies (?g m))"
    by (simp add: new_Enemy_def)
  have "getEnemyAt (?g m) (3, 4) = None \<and>
        handleMovement 8 8 (?g m) South = Some ((?g m)\<lparr>m_player := Some (?p\<lparr>pos := (3, 4)\<rparr>)\<rparr>)"
    using dead_enemies_are_not_fought [of "?g m" South 8 8, THEN conjunct2, rule_format,
        of ?p m "tile_of Floor"] t dead
    unfolding d by (simp add: in_int_def INT_MIN_def INT_MAX_def)
  then show ?thesis
    unfolding s by (simp add: new_Enemy_def)
qed

text \<open>
  Claim C6. The claim says that right after newGame all 5 spawned enemies are alive
  (health above 0). One of the seven archetypes the spawner draws from is the Dragon,
  which is constructed with health 0: with an engine whose fifth draw selects archetype
  index 6, the first enemy of the new game is a Dragon with health 0. The other parts
  of the claim hold there: the player is at the spawn offset on dungeon level 1, the
  state is Playing and the log holds the welcome message only.
\<close>

theorem newGame_spawns_dead_Dragon:
  "map_option (\<lambda>g. (map (\<lambda>e. (e_type e, e_health e)) (m_enemies g),
                    map_option pos (m_player g), map_option dungeonLevel (m_player g),
                    m_state g, m_messages g))
     (demo_session 8 8 (shift [0, 0, 2, 3, 6] (sconst 0))) =
   Some ([(Dragon, 0), (Goblin, 20), (Goblin, 20), (Goblin, 20), (Goblin, 20)],
         Some (3, 3), Some 1, Playing, [''Welcome to the dungeon, Hero!''])"
proof -
  obtain m where "demo_session 8 8 (shift [0, 0, 2, 3, 6] (sconst 0)) =
       Some \<lparr>m_state = Playing, m_nextEntityId = 7,
             m_player = Some ((new_Player 1 ''Hero'' (5, 5))\<lparr>pos := (3, 3)\<rparr>),
             m_map = Some m, m_generator = Some \<lparr>m_seed = 0, m_rng = sconst 0\<rparr>,
             m_enemies = [new_Enemy 2 Dragon (3, 4), new_Enemy 3 Goblin (1, 1),
               new_Enemy 4 Goblin (1, 1), new_Enemy 5 Goblin (1, 1), new_Enemy 6 Goblin (1, 1)],
             m_floorItems = [potion, potion, potion],
             m_messages = [''Welcome to the dungeon, Hero!'']\<rparr>"
    using demo_session_dragon_south by blast
  then show ?thesis
    by (simp add: new_Enemy_def new_Player_def)
qed

section \<open>Saving and loading round trip\<close>

lemma digit_char_props:
  assumes "d < 10"
  shows "isdigit_c (digit_char d)" and "digit_val (digit_char d) = d"
    and "\<not> isspace_c (digit_char d)" and "digit_char d \<noteq> CHR ''-''"
    and "digit_char d \<noteq> CHR ''+''"
proof -
  have o: "(of_char (digit_char d) :: nat) = 48 + d"
    using assms by (simp add: digit_char_def)
  show "isdigit_c (digit_char d)" and "digit_val (digit_char d) = d"
    using assms by (simp_all add: isdigit_c_def digit_val_def o)
  have "(of_char (digit_char d) :: nat) \<noteq> of_char CHR '' ''"
    unfolding o by simp
  then have "digit_char d \<noteq> CHR '' ''" by fastforce
  then show "\<not> isspace_c (digit_char d)"
    by (simp add: isspace_c_def o)
  have "(of_char (digit_char d) :: nat) \<noteq> of_char CHR ''-''"
    unfolding o by simp
  then show "digit_char d \<noteq> CHR ''-''" by fastforce
  have "(of_char (digit_char d) :: nat) \<noteq> of_char CHR ''+''"
    unfolding o by simp
  then show "digit_char d \<noteq> CHR ''+''" by fastforce
qed

lemma digits_of_nonempty: "digits_of n \<noteq> []"
  by (subst digits_of.simps) simp

lemma digits_of_all_digits: "list_all isdigit_c (digits_of n)"
proof (induction n rule: digits_of.induct)
  case (1 n)
  show ?case
  proof (cases "n < 10")
    case True
    then show ?thesis
      by (subst digits_of.simps) (simp add: digit_char_props)
  next
    case False
    with 1 show ?thesis
      by (subst digits_of.simps) (simp add: digit_char_props)
  qed
qed

lemma hd_digits_of: "\<exists>d<10. hd (digits_of n) = digit_char d"
proof (induction n rule: digits_of.induct)
  case (1 n)
  show ?case
  proof (cases "n < 10")
    case True
    then show ?thesis
      by (subst digits_of.simps) auto
  next
    case False
    with 1 digits_of_nonempty [of "n div 10"] show ?thesis
      by (subst digits_of.simps) simp
  qed
qed

lemma foldl_digits_of:
  "foldl (\<lambda>acc c. acc * 10 + digit_val c) a (digits_of n) = a * 10 ^ length (digits_of n) + n"
proof (induction n arbitrary: a rule: digits_of.induct)
  case (1 n)
  show ?case
  proof (cases "n < 10")
    case True
    then show ?thesis
      by (subst (1 2) digits_of.simps) (simp add: digit_char_props)
  next
    case False
    have "foldl (\<lambda>acc c. acc * 10 + digit_val c) a (digits_of n) =
          foldl (\<lambda>acc c. acc * 10 + digit_val c) a (digits_of (n div 10)) * 10 + n mod 10"
      using False by (subst digits_of.simps) (simp add: digit_char_props)
    also have "\<dots> = (a * 10 ^ length (digits_of (n div 10)) + n div 10) * 10 + n mod 10"
      using "1.IH" [OF False] by simp
    also have "\<dots> = a * 10 ^ (length (digits_of (n div 10)) + 1) + n"
      by (simp add: algebra_simps)
    also have "length (digits_of (n div 10)) + 1 = length (digits_of n)"
      using False by (subst (2) digits_of.simps) simp
    finally show ?thesis .
  qed
qed

lemma nat_of_digits_of: "nat_of_digits (digits_of n) = n"
  by (simp add: nat_of_digits_def foldl_digits_of)

lemma takeWhile_digits:
  assumes "list_all isdigit_c ds" and "\<not> isdigit_c c"
  shows "takeWhile isdigit_c (ds @ c # rest) = ds" and "dropWhile isdigit_c (ds @ c # rest) = c # rest"
  using assms by (induction ds) simp_all

lemma dropWhile_spaces:
  assumes "list_all isspace_c ws" and "\<not> isspace_c c"
  shows "dropWhile isspace_c (ws @ c # rest) = c # rest"
  using assms by (induction ws) simp_all

lemma extract_int_to_string:
  assumes v: "in_int v" and ws: "list_all isspace_c ws" and c: "\<not> isdigit_c c"
  shows "extract_int \<lparr>buf = ws @ to_string v @ c # rest, failbit = False, eofbit = False\<rparr> =
           (Some v, \<lparr>buf = c # rest, failbit = False, eofbit = False\<rparr>)"
proof (cases "v < 0")
  case True
  let ?ds = "digits_of (nat (- v))"
  have b: "dropWhile isspace_c (ws @ to_string v @ c # rest) = CHR ''-'' # ?ds @ c # rest"
    using True dropWhile_spaces [OF ws, of "CHR ''-''" "?ds @ c # rest"]
    by (simp add: to_string_def isspace_c_def)
  have "- int (nat_of_digits ?ds) = v"
    using True by (simp add: nat_of_digits_of)
  then show ?thesis
    using v True digits_of_nonempty [of "nat (- v)"]
    by (simp add: extract_int_def b Let_def takeWhile_digits [OF digits_of_all_digits c]
        in_int_def)
next
  case False
  let ?ds = "digits_of (nat v)"
  obtain d ds' where ds: "?ds = digit_char d # ds'" and d: "d < 10"
    using hd_digits_of [of "nat v"] digits_of_nonempty [of "nat v"]
    by (cases ?ds) auto
  have "dropWhile isspace_c (ws @ digit_char d # ds' @ c # rest) = digit_char d # ds' @ c # rest"
    using dropWhile_spaces [OF ws digit_char_props(3) [OF d]] by simp
  then have b: "dropWhile isspace_c (ws @ to_string v @ c # rest) = ?ds @ c # rest"
    using False by (simp add: to_string_def ds)
  have h: "hd (?ds @ c # rest) \<noteq> CHR ''-''" "hd (?ds @ c # rest) \<noteq> CHR ''+''"
    using digit_char_props(4,5) [OF d] by (simp_all add: ds)
  have "int (nat_of_digits ?ds) = v"
    using False by (simp add: nat_of_digits_of)
  then show ?thesis
    using v False digits_of_nonempty [of "nat v"] h
    by (simp add: extract_int_def b Let_def takeWhile_digits [OF digits_of_all_digits c]
        in_int_def)
qed

lemma getline_first_line:
  assumes "newline \<notin> set nm"
  shows "getline \<lparr>buf = nm @ newline # rest, failbit = False, eofbit = False\<rparr> =
           (nm, \<lparr>buf = rest, failbit = False, eofbit = False\<rparr>)"
proof -
  have "takeWhile (\<lambda>c. c \<noteq> newline) (nm @ newline # rest) = nm"
    using assms by (induction nm) auto
  moreover have "dropWhile (\<lambda>c. c \<noteq> newline) (nm @ newline # rest) = newline # rest"
    using assms by (induction nm) auto
  ultimately show ?thesis
    by (simp add: getline_def)
qed

lemma separator_props:
  "\<not> isdigit_c CHR '' ''" "\<not> isdigit_c newline" "isspace_c CHR '' ''" "isspace_c newline"
  by (simp_all add: isdigit_c_def isspace_c_def newline_def)

lemma loadGame_save_text:
  assumes st: "stats_in_int p" and nm: "newline \<notin> set (name p)"
    and fl: "contents fs filename = Some (save_text p)"
    and gen: "m_generator g = Some gen" and W: "3 \<le> W" and H: "3 \<le> H"
  shows "\<exists>g'. loadGame fs W H g filename = Some (True, g') \<and>
           m_player g' = Some (loaded_Player (m_nextEntityId g) p) \<and> m_state g' = Playing"
proof -
  let ?sp = "CHR '' ''"
  let ?r8 = "[newline]"
  let ?r7 = "?sp # to_string (dungeonLevel p) @ ?r8"
  let ?r6 = "?sp # to_string (gold p) @ ?r7"
  let ?r5 = "?sp # to_string (experience p) @ ?r6"
  let ?r4 = "newline # to_string (level p) @ ?r5"
  let ?r3 = "?sp # to_string (defense p) @ ?r4"
  let ?r2 = "?sp # to_string (attackPower p) @ ?r3"
  let ?r1 = "?sp # to_string (maxHealth p) @ ?r2"
  let ?r0 = "to_string (health p) @ ?r1"
  let ?s = "\<lambda>b. \<lparr>buf = b, failbit = False, eofbit = False\<rparr>"
  have stx: "save_text p = name p @ newline # ?r0"
    by (simp add: save_text_def)
  have l0: "getline (?s (save_text p)) = (name p, ?s ?r0)"
    unfolding stx by (rule getline_first_line [OF nm])
  have v: "in_int (health p)" "in_int (maxHealth p)" "in_int (attackPower p)" "in_int (defense p)"
    "in_int (level p)" "in_int (experience p)" "in_int (gold p)" "in_int (dungeonLevel p)"
    using st by (simp_all add: stats_in_int_def)
  have e1: "extract_int (?s ?r0) = (Some (health p), ?s ?r1)"
    using extract_int_to_string [OF v(1), of "[]" ?sp] by (simp add: separator_props)
  have e2: "extract_int (?s ?r1) = (Some (maxHealth p), ?s ?r2)"
    using extract_int_to_string [OF v(2), of "[?sp]" ?sp] by (simp add: separator_props)
  have e3: "extract_int (?s ?r2) = (Some (attackPower p), ?s ?r3)"
    using extract_int_to_string [OF v(3), of "[?sp]" ?sp] by (simp add: separator_props)
  have e4: "extract_int (?s ?r3) = (Some (defense p), ?s ?r4)"
    using extract_int_to_string [OF v(4), of "[?sp]" newline] by (simp add: separator_props)
  have e5: "extract_int (?s ?r4) = (Some (level p), ?s ?r5)"
    using extract_int_to_string [OF v(5), of "[newline]" ?sp] by (simp add: separator_props)
  have e6: "extract_int (?s ?r5) = (Some (experience p), ?s ?r6)"
    using extract_int_to_string [OF v(6), of "[?sp]" ?sp] by (simp add: separator_props)
  have e7: "extract_int (?s ?r6) = (Some (gold p), ?s ?r7)"
    using extract_int_to_string [OF v(7), of "[?sp]" ?sp] by (simp add: separator_props)
  have e8: "extract_int (?s ?r7) = (Some (dungeonLevel p), ?s [newline])"
    using extract_int_to_string [OF v(8), of "[?sp]" newline "[]"] by (simp add: separator_props)
  have "2 \<le> W" "2 \<le> H" using W H by simp_all
  then obtain m where m: "generate gen W H = Some (m, gen\<lparr>m_rng := stl (stl (m_rng gen))\<rparr>)"
    using generate_result [of W H gen] by blast
  let ?g1 = "g\<lparr>m_nextEntityId := m_nextEntityId g + 1,
               m_player := Some (loaded_Player (m_nextEntityId g) p), m_map := Some m,
               m_generator := Some (gen\<lparr>m_rng := stl (stl (m_rng gen))\<rparr>)\<rparr>"
  have "m_generator ?g1 \<noteq> None" by simp
  from spawnEnemies_from_result [OF W H this, of 0 5]
  obtain g2 where g2: "spawnEnemies_from W H 0 5 ?g1 = Some g2"
    and p2: "m_player g2 = m_player ?g1"
    by blast
  have "loadGame fs W H g filename = Some (True, g2\<lparr>m_state := Playing\<rparr>)"
    using W H g2
    by (simp add: loadGame_def fl l0 e1 e2 e3 e4 e5 e6 e7 e8 gen m spawnEnemies_def
        loaded_Player_def)
  with p2 show ?thesis by simp
qed

text \<open>
  Claim C9, amended. For a player whose name contains no newline character and whose
  eight numeric fields are values of the type int, saveGame to a file that can be opened
  for writing succeeds and writes the three lines, and loadGame of that file (into any
  session with a generator, for fixed dimensions of at least 3 by 3) succeeds and leaves
  a player with the same name and the same eight numeric fields.
\<close>

theorem save_then_load_roundtrip:
  assumes "m_player g = Some p" and "can_write fs filename"
    and "newline \<notin> set (name p)" and "stats_in_int p"
    and "m_generator g2 = Some gen" and "3 \<le> W" and "3 \<le> H"
  shows "\<exists>fs' g' p'. saveGame fs g filename = Some (True, fs') \<and>
           contents fs' filename = Some (save_text p) \<and>
           loadGame fs' W H g2 filename = Some (True, g') \<and> m_player g' = Some p' \<and>
           name p' = name p \<and> health p' = health p \<and> maxHealth p' = maxHealth p \<and>
           attackPower p' = attackPower p \<and> defense p' = defense p \<and> level p' = level p \<and>
           experience p' = experience p \<and> gold p' = gold p \<and>
           dungeonLevel p' = dungeonLevel p"
proof -
  let ?fs = "fs\<lparr>contents := (contents fs)(filename \<mapsto> save_text p)\<rparr>"
  have s: "saveGame fs g filename = Some (True, ?fs)"
    using assms(1,2) by (simp add: saveGame_def)
  have c: "contents ?fs filename = Some (save_text p)"
    by simp
  obtain g' where l: "loadGame ?fs W H g2 filename = Some (True, g')"
    and p': "m_player g' = Some (loaded_Player (m_nextEntityId g2) p)"
    using loadGame_save_text [OF assms(4,3) c assms(5,6,7)] by blast
  show ?thesis
    apply (rule exI [of _ ?fs])
    apply (rule exI [of _ g'])
    apply (rule exI [of _ "loaded_Player (m_nextEntityId g2) p"])
    using s c l p' by (simp add: loaded_Player_def new_Player_def)
qed

theorem save_then_load_roundtrip_witness:
  "\<exists>fs' g' p'. saveGame demo_files (demo_saver ((new_Player 1 ''Sir Hero'' (5, 5))
                   \<lparr>health := - 7, gold := 2147483647\<rparr>)) ''save.txt'' = Some (True, fs') \<and>
     loadGame fs' 8 8 (demo_saver (new_Player 1 ''Other'' (5, 5))) ''save.txt'' = Some (True, g') \<and>
     m_player g' = Some p' \<and>
     saved_stats p' = (''Sir Hero'', [- 7, 100, 5, 2, 1, 0, 2147483647, 1])"
proof -
  let ?p = "(new_Player 1 ''Sir Hero'' (5, 5))\<lparr>health := - 7, gold := 2147483647\<rparr>"
  have "\<exists>fs' g' p'. saveGame demo_files (demo_saver ?p) ''save.txt'' = Some (True, fs') \<and>
           contents fs' ''save.txt'' = Some (save_text ?p) \<and>
           loadGame fs' 8 8 (demo_saver (new_Player 1 ''Other'' (5, 5))) ''save.txt''
             = Some (True, g') \<and> m_player g' = Some p' \<and>
           name p' = name ?p \<and> health p' = health ?p \<and> maxHealth p' = maxHealth ?p \<and>
           attackPower p' = attackPower ?p \<and> defense p' = defense ?p \<and> level p' = level ?p \<and>
           experience p' = experience ?p \<and> gold p' = gold ?p \<and>
           dungeonLevel p' = dungeonLevel ?p"
    by (rule save_then_load_roundtrip [where gen = "\<lparr>m_seed = 0, m_rng = sconst 0\<rparr>"])
      (simp_all add: demo_saver_def demo_files_def new_Game_def new_Player_def newline_def
        stats_in_int_def in_int_def INT_MIN_def INT_MAX_def)
  then show ?thesis
    by (auto simp add: saved_stats_def new_Player_def)
qed

text \<open>
  Claim C9 as stated fails for a name that contains a newline: the name is written as
  two lines, getline reads the first of them back as the name and the extractions read
  the eight numbers from the second.
\<close>

theorem save_then_load_newline_name_counterexample:
  "saved_stats (new_Player 1 (''x'' @ [newline] @ ''1 2 3 4 5 6 7 8'') (5, 5)) =
     (''x'' @ [newline] @ ''1 2 3 4 5 6 7 8'', [100, 100, 5, 2, 1, 0, 0, 1]) \<and>
   (saveGame demo_files
      (demo_saver (new_Player 1 (''x'' @ [newline] @ ''1 2 3 4 5 6 7 8'') (5, 5))) ''save.txt''
    \<bind> (\<lambda>r. loadGame (snd r) 8 8 (demo_saver (new_Player 1 ''Other'' (5, 5))) ''save.txt'')
    \<bind> (\<lambda>r. map_option saved_stats (m_player (snd r)))) =
     Some (''x'', [1, 2, 3, 4, 5, 6, 7, 8])"
proof -
  let ?gen = "\<lparr>m_seed = 0, m_rng = sconst 0\<rparr>"
  obtain m where g: "generate ?gen 8 8 = Some (m, ?gen\<lparr>m_rng := stl (stl (m_rng ?gen))\<rparr>)"
    using generate_result [of 8 8 ?gen] by auto
  have d: "digits_of 100 = ''100''" "digits_of 5 = ''5''" "digits_of 2 = ''2''"
    "digits_of 1 = ''1''" "digits_of 0 = ''0''"
    by code_simp+
  show ?thesis
    using g
    by (simp add: saved_stats_def new_Player_def saveGame_def demo_files_def demo_saver_def
        new_Game_def save_text_def to_string_def d loadGame_def getline_def extract_int_def
        newline_def isspace_c_def isdigit_c_def nat_of_digits_def digit_val_def Let_def
        in_int_def INT_MIN_def INT_MAX_def
        spawnEnemies_def spawnEnemies_from.simps uniform_int_def types_def)
qed

section \<open>Combat on the destination cell\<close>

lemma getEnemyAt_loop_first:
  assumes "i < length es" and "e_pos (es ! i) = d" and "0 < e_health (es ! i)"
    and "\<forall>j<i. \<not> (e_pos (es ! j) = d \<and> 0 < e_health (es ! j))"
  shows "getEnemyAt_loop es d = Some i"
  using assms
proof (induction es arbitrary: i)
  case Nil
  then show ?case by simp
next
  case (Cons a es)
  show ?case
  proof (cases i)
    case 0
    with Cons.prems show ?thesis
      by (simp add: Enemy_isAlive_def)
  next
    case (Suc k)
    have a: "\<not> (e_pos a = d \<and> Enemy_isAlive a)"
      using Cons.prems(4) Suc by (auto simp add: Enemy_isAlive_def)
    have "\<forall>j<k. \<not> (e_pos (es ! j) = d \<and> 0 < e_health (es ! j))"
    proof (intro allI impI)
      fix j assume "j < k"
      then have "Suc j < i" using Suc by simp
      with Cons.prems(4) show "\<not> (e_pos (es ! j) = d \<and> 0 < e_health (es ! j))"
        by fastforce
    qed
    with Cons.prems Suc have "getEnemyAt_loop es d = Some k"
      by (intro Cons.IH) simp_all
    with a Suc show ?thesis by simp
  qed
qed

lemma handleCombat_result:
  assumes "m_player g = Some p" and "i < length (m_enemies g)" and "e = m_enemies g ! i"
    and "in_int (e_health e - attackPower p)"
    and "0 < e_health e - attackPower p \<Longrightarrow>
           in_int (e_attackPower e - defense p) \<and>
           in_int (health p - max 1 (e_attackPower e - defense p))"
    and "e_health e - attackPower p \<le> 0 \<Longrightarrow>
           in_int (experience p + expReward e) \<and> in_int (gold p + goldReward e)"
  shows "\<exists>g2 p2. handleCombat g i = Some g2 \<and> m_player g2 = Some p2 \<and> pos p2 = pos p \<and>
           m_enemies g2 = (m_enemies g)[i := e\<lparr>e_health := e_health e - attackPower p\<rparr>] \<and>
           (if 0 < e_health e - attackPower p
            then health p2 = health p - max 1 (e_attackPower e - defense p) \<and>
                 experience p2 = experience p \<and> gold p2 = gold p \<and>
                 m_state g2 = (if health p2 \<le> 0 then GameOver else m_state g)
            else health p2 = health p \<and>
                 experience p2 = experience p + expReward e \<and>
                 gold p2 = gold p + goldReward e \<and> m_state g2 = m_state g)"
proof (cases "0 < e_health e - attackPower p")
  case True
  with assms show ?thesis
    by (auto simp add: handleCombat_def Enemy_takeDamage_def Player_takeDamage_def ck_def
        Enemy_isAlive_def Player_isAlive_def Let_def)
next
  case False
  with assms show ?thesis
    by (simp add: handleCombat_def Enemy_takeDamage_def Player_takeDamage_def ck_def
        Enemy_isAlive_def Let_def)
qed

text \<open>
  Claim C1. Combat is attacker-first and deterministic. When the destination of the move
  is a cell of the grid on which an alive enemy stands (the first such enemy of the list
  is the one getEnemyAt returns) and no signed operation overflows, handleMovement
  resolves one exchange with that enemy and then only tests for the stairs. The enemy's
  health has decreased by exactly the player's attackPower. If it is still above 0, the
  player's health has decreased by exactly max(1, enemy.attackPower - player.defense),
  experience and gold are unchanged, and the state is GameOver exactly when the player's
  health is no longer above 0. Otherwise the player's health and the state are unchanged
  and experience and gold have grown by exactly the enemy's expReward and goldReward.
\<close>

theorem handleMovement_fights_alive_enemy:
  assumes "m_player g = Some p" and "m_map g = Some m"
    and "d = spec_delta dir (pos p)" and "in_int (fst d)" and "in_int (snd d)"
    and "getTile m (fst d) (snd d) = Some t"
    and "i < length (m_enemies g)" and "e = m_enemies g ! i"
    and "e_pos e = d" and "0 < e_health e"
    and "\<forall>j<i. \<not> (e_pos (m_enemies g ! j) = d \<and> 0 < e_health (m_enemies g ! j))"
    and "in_int (e_health e - attackPower p)"
    and "0 < e_health e - attackPower p \<Longrightarrow>
           in_int (e_attackPower e - defense p) \<and>
           in_int (health p - max 1 (e_attackPower e - defense p))"
    and "e_health e - attackPower p \<le> 0 \<Longrightarrow>
           in_int (experience p + expReward e) \<and> in_int (gold p + goldReward e)"
  shows "getEnemyAt (g\<lparr>m_player := Some (p\<lparr>pos := d\<rparr>)\<rparr>) d = Some i \<and>
         (\<exists>g2 p2. handleCombat (g\<lparr>m_player := Some (p\<lparr>pos := d\<rparr>)\<rparr>) i = Some g2 \<and>
            handleMovement W H g dir =
              (if t_type t = StairsDown then nextLevel W H g2 else Some g2) \<and>
            m_player g2 = Some p2 \<and> pos p2 = d \<and>
            m_enemies g2 = (m_enemies g)[i := e\<lparr>e_health := e_health e - attackPower p\<rparr>] \<and>
            (if 0 < e_health e - attackPower p
             then health p2 = health p - max 1 (e_attackPower e - defense p) \<and>
                  experience p2 = experience p \<and> gold p2 = gold p \<and>
                  m_state g2 = (if health p2 \<le> 0 then GameOver else m_state g)
             else health p2 = health p \<and>
                  experience p2 = experience p + expReward e \<and>
                  gold p2 = gold p + goldReward e \<and> m_state g2 = m_state g))"
proof -
  let ?p1 = "p\<lparr>pos := d\<rparr>"
  let ?g1 = "g\<lparr>m_player := Some ?p1\<rparr>"
  have mv: "move p dir = Some (True, ?p1)"
    using assms(3,4,5) move_spec_delta [of dir p] by simp
  have t: "getTile m (fst (pos ?p1)) (snd (pos ?p1)) = Some t"
    using assms(6) by simp
  have steps: "handleMovement W H g dir =
      (case getEnemyAt ?g1 (pos ?p1) of Some i \<Rightarrow> handleCombat ?g1 i | None \<Rightarrow> Some ?g1)
      \<bind> (\<lambda>g2. if t_type t = StairsDown then nextLevel W H g2 else Some g2)"
    by (rule handleMovement_steps [OF assms(1,2) mv t])
  have found: "getEnemyAt ?g1 d = Some i"
    using getEnemyAt_loop_first [of i "m_enemies g" d] assms(7-11)
    by (simp add: getEnemyAt_def)
  have "m_player ?g1 = Some ?p1" "i < length (m_enemies ?g1)" "e = m_enemies ?g1 ! i"
    using assms(7,8) by simp_all
  from handleCombat_result [OF this] assms(12-14)
  obtain g2 p2 where c: "handleCombat ?g1 i = Some g2" "m_player g2 = Some p2" "pos p2 = d"
    "m_enemies g2 = (m_enemies g)[i := e\<lparr>e_health := e_health e - attackPower p\<rparr>]"
    "if 0 < e_health e - attackPower p
     then health p2 = health p - max 1 (e_attackPower e - defense p) \<and>
          experience p2 = experience p \<and> gold p2 = gold p \<and>
          m_state g2 = (if health p2 \<le> 0 then GameOver else m_state g)
     else health p2 = health p \<and>
          experience p2 = experience p + expReward e \<and>
          gold p2 = gold p + goldReward e \<and> m_state g2 = m_state g"
    by auto
  have "handleMovement W H g dir = (if t_type t = StairsDown then nextLevel W H g2 else Some g2)"
    unfolding steps using found c(1) by simp
  with found c show ?thesis by blast
qed

lemma demo_session_goblin_south:
  "\<exists>m. demo_session 8 8 (shift [0, 0, 2, 3, 6, 2, 3, 0] (sconst 0)) =
       Some \<lparr>m_state = Playing, m_nextEntityId = 7,
             m_player = Some ((new_Player 1 ''Hero'' (5, 5))\<lparr>pos := (3, 3)\<rparr>),
             m_map = Some m, m_generator = Some \<lparr>m_seed = 0, m_rng = sconst 0\<rparr>,
             m_enemies = [new_Enemy 2 Dragon (3, 4), new_Enemy 3 Goblin (3, 4),
               new_Enemy 4 Goblin (1, 1), new_Enemy 5 Goblin (1, 1), new_Enemy 6 Goblin (1, 1)],
             m_floorItems = [potion, potion, potion],
             m_messages = [''Welcome to the dungeon, Hero!'']\<rparr> \<and>
     getTile m 3 4 = Some (tile_of Floor)"
proof -
  let ?gen = "\<lparr>m_seed = 0, m_rng = shift [0, 0, 2, 3, 6, 2, 3, 0] (sconst 0)\<rparr>"
  obtain m where g: "generate ?gen 8 8 = Some (m, ?gen\<lparr>m_rng := stl (stl (m_rng ?gen))\<rparr>)"
    and t: "\<forall>x y. 0 \<le> x \<and> x < 8 \<and> 0 \<le> y \<and> y < 8 \<longrightarrow> getTile m x y =
                Some (if (x, y) = stairs_of ?gen 8 8 then tile_of StairsDown
                      else if in_room 8 8 x y then tile_of Floor else tile_of Wall)"
    using generate_tile [of 8 8 ?gen] by auto
  have tile: "getTile m 3 4 = Some (tile_of Floor)"
    using t by (simp add: stairs_of_def in_room_def)
  show ?thesis
    using tile g
    by (simp add: demo_session_def newGame_def initialize_def new_Game_def Let_def
        spawnEnemies_def spawnItems_def spawnEnemies_from.simps spawnItems_from.simps
        uniform_int_def addMessage_def MAX_MESSAGES_def types_def potion_def)
      (simp add: eval_nat_numeral)
qed

theorem handleMovement_fights_alive_enemy_witness:
  "\<exists>g g'. demo_session 8 8 (shift [0, 0, 2, 3, 6, 2, 3, 0] (sconst 0)) = Some g \<and>
     map_option pos (m_player g) = Some (3, 3) \<and>
     map (\<lambda>e. (e_type e, e_pos e, e_health e)) (m_enemies g) =
       [(Dragon, (3, 4), 0), (Goblin, (3, 4), 20), (Goblin, (1, 1), 20),
        (Goblin, (1, 1), 20), (Goblin, (1, 1), 20)] \<and>
     handleMovement 8 8 g South = Some g' \<and>
     map e_health (m_enemies g') = [0, 15, 20, 20, 20] \<and>
     map_option (\<lambda>q. (pos q, health q, experience q, gold q)) (m_player g') =
       Some ((3, 4), 97, 0, 0) \<and>
     m_state g' = Playing"
proof -
  let ?p = "(new_Player 1 ''Hero'' (5, 5))\<lparr>pos := (3, 3)\<rparr>"
  let ?g = "\<lambda>m. \<lparr>m_state = Playing, m_nextEntityId = 7, m_player = Some ?p,
             m_map = Some m, m_generator = Some \<lparr>m_seed = 0, m_rng = sconst 0\<rparr>,
             m_enemies = [new_Enemy 2 Dragon (3, 4), new_Enemy 3 Goblin (3, 4),
               new_Enemy 4 Goblin (1, 1), new_Enemy 5 Goblin (1, 1), new_Enemy 6 Goblin (1, 1)],
             m_floorItems = [potion, potion, potion],
             m_messages = [''Welcome to the dungeon, Hero!'']\<rparr>"
  obtain m where s: "demo_session 8 8 (shift [0, 0, 2, 3, 6, 2, 3, 0] (sconst 0)) = Some (?g m)"
    and t: "getTile m 3 4 = Some (tile_of Floor)"
    using demo_session_goblin_south by blast
  let ?e = "new_Enemy 3 Goblin (3, 4)"
  have a1: "m_player (?g m) = Some ?p" and a2: "m_map (?g m) = Some m"
    by simp_all
  have a3: "(3, 4) = spec_delta South (pos ?p)"
    by (simp add: spec_delta_def)
  have a4: "in_int (fst (3 :: int, 4 :: int))" "in_int (snd (3 :: int, 4 :: int))"
    by (simp_all add: in_int_def INT_MIN_def INT_MAX_def)
  have a6: "getTile m (fst (3 :: int, 4 :: int)) (snd (3 :: int, 4 :: int)) = Some (tile_of Floor)"
    using t by simp
  have a7: "1 < length (m_enemies (?g m))" and a8: "?e = m_enemies (?g m) ! 1"
    by simp_all
  have a9: "e_pos ?e = (3, 4)" and a10: "0 < e_health ?e"
    by (simp_all add: new_Enemy_def)
  have a11: "\<forall>j<1. \<not> (e_pos (m_enemies (?g m) ! j) = (3, 4) \<and> 0 < e_health (m_enemies (?g m) ! j))"
    by (simp add: new_Enemy_def)
  have v: "e_health ?e - attackPower ?p = 15" "e_attackPower ?e - defense ?p = 3"
    "health ?p = 100" "experience ?p = 0" "gold ?p = 0"
    by (simp_all add: new_Enemy_def new_Player_def)
  have a12: "in_int (e_health ?e - attackPower ?p)"
    and a13: "in_int (e_attackPower ?e - defense ?p) \<and>
              in_int (health ?p - max 1 (e_attackPower ?e - defense ?p))"
    unfolding v by (simp_all add: in_int_def INT_MIN_def INT_MAX_def)
  have a14: "e_health ?e - attackPower ?p \<le> 0 \<Longrightarrow>
             in_int (experience ?p + expReward ?e) \<and> in_int (gold ?p + goldReward ?e)"
    unfolding v by simp
  from handleMovement_fights_alive_enemy [OF a1 a2 a3 a4 a6 a7 a8 a9 a10 a11 a12 a13 a14, of 8 8]
  obtain g2 p2 where r: "handleMovement 8 8 (?g m) South = Some g2" "m_player g2 = Some p2"
    "pos p2 = (3, 4)" "m_enemies g2 = (m_enemies (?g m))[1 := ?e\<lparr>e_health := 15\<rparr>]"
    "health p2 = 97" "experience p2 = 0" "gold p2 = 0" "m_state g2 = Playing"
    unfolding v by auto
  have "map e_health (m_enemies g2) = [0, 15, 20, 20, 20]"
    unfolding r(4) by (simp add: new_Enemy_def)
  with r s show ?thesis
    by (simp add: new_Enemy_def new_Player_def)
qed

section \<open>The level transition after the move\<close>

lemma generate_walkable:
  assumes "2 \<le> w" and "2 \<le> h" and "generate gen w h = Some (m, gen')"
  shows "m_width m = w \<and> m_height m = h \<and> (\<forall>x y. isWalkable m x y = Some (in_room w h x y))"
proof -
  obtain m0 where g: "generate gen w h = Some (m0, gen\<lparr>m_rng := stl (stl (m_rng gen))\<rparr>)"
    and wf: "wf_map m0" and d: "m_width m0 = w" "m_height m0 = h"
    and t: "\<And>x y. getTile m0 x y =
              (if isValidPosition m0 x y
               then Some (if (x, y) = stairs_of gen w h then tile_of StairsDown
                          else if in_room w h x y then tile_of Floor else tile_of Wall)
               else None)"
    using generate_result [OF assms(1,2), of gen] by blast
  have m: "m = m0" using g assms(3) by simp
  obtain sx sy where s: "stairs_of gen w h = (sx, sy)"
    by (cases "stairs_of gen w h")
  have room: "in_room w h sx sy"
    using in_room_stairs_of [OF assms(1,2), of gen] s by simp
  have valid: "isValidPosition m0 x y" if "in_room w h x y" for x y
    using in_room_valid [OF _ _ that] assms(1,2) d by (simp add: isValidPosition_def)
  have "isWalkable m0 x y = Some (in_room w h x y)" for x y
  proof (cases "isValidPosition m0 x y")
    case True
    then have "m_tiles m0 ! nat y ! nat x =
               (if (x, y) = stairs_of gen w h then tile_of StairsDown
                else if in_room w h x y then tile_of Floor else tile_of Wall)"
      using t [of x y] unfolding getTile_wf [OF wf] by simp
    with True show ?thesis
      unfolding isWalkable_wf [OF wf] s using room by auto
  next
    case False
    then show ?thesis
      unfolding isWalkable_wf [OF wf] using valid by auto
  qed
  with d m show ?thesis by simp
qed

text \<open>
  Claim C5. When the destination tile is StairsDown (inside the grid), the fixed
  dimensions are at least 4 by 4, a generator exists and no signed operation overflows,
  handleMovement first resolves the combat on the destination cell, if an alive enemy
  stands there, and then runs the level transition on the session the combat left:
  dungeonLevel is incremented by exactly 1, while health, experience, gold and the game
  state are those after the combat; the map is the one generate returns for the fixed
  dimensions; the player stands at the spawn offset, a walkable cell of the room of that
  new map; the enemy list holds exactly the freshly constructed enemies,
  5 + (new dungeonLevel) of them (none when that number is negative); three potions are
  appended to the floor items; the descent message is appended to the log the combat
  left. Descending from level 1 gives level 2 and exactly 7 enemies.
\<close>

theorem handleMovement_descends:
  assumes "m_player g = Some p" and "m_map g = Some m" and "m_generator g = Some gen"
    and "4 \<le> W" and "4 \<le> H"
    and "d = spec_delta dir (pos p)" and "in_int (fst d)" and "in_int (snd d)"
    and "getTile m (fst d) (snd d) = Some t"
    and "t_type t = StairsDown"
    and "list_all (combat_in_range p) (m_enemies g)"
    and "in_int (dungeonLevel p + 1)" and "in_int (5 + (dungeonLevel p + 1))"
  shows "\<exists>g2 p2 g' p' m' gen'.
           (case getEnemyAt (g\<lparr>m_player := Some (p\<lparr>pos := d\<rparr>)\<rparr>) d of
              Some i \<Rightarrow> handleCombat (g\<lparr>m_player := Some (p\<lparr>pos := d\<rparr>)\<rparr>) i
            | None \<Rightarrow> Some (g\<lparr>m_player := Some (p\<lparr>pos := d\<rparr>)\<rparr>)) = Some g2 \<and>
           m_player g2 = Some p2 \<and>
           handleMovement W H g dir = nextLevel W H g2 \<and>
           handleMovement W H g dir = Some g' \<and> m_player g' = Some p' \<and>
           p' = p2\<lparr>dungeonLevel := dungeonLevel p + 1, pos := spawn_point W H\<rparr> \<and>
           m_state g' = m_state g2 \<and>
           generate gen W H = Some (m', gen') \<and> m_map g' = Some m' \<and>
           m_width m' = W \<and> m_height m' = H \<and>
           in_room W H (fst (pos p')) (snd (pos p')) \<and>
           isWalkable m' (fst (pos p')) (snd (pos p')) = Some True \<and>
           (\<forall>x y. isWalkable m' x y = Some (in_room W H x y)) \<and>
           length (m_enemies g') = nat (5 + dungeonLevel p') \<and>
           list_all (spawned W H (m_nextEntityId g)) (m_enemies g') \<and>
           m_floorItems g' = m_floorItems g @ replicate 3 potion \<and>
           m_messages g' = m_messages (addMessage g2
              (''You descend to dungeon level '' @ to_string (dungeonLevel p'))) \<and>
           last (m_messages g') = ''You descend to dungeon level '' @ to_string (dungeonLevel p') \<and>
           (dungeonLevel p = 1 \<longrightarrow> dungeonLevel p' = 2 \<and> length (m_enemies g') = 7)"
proof -
  let ?p1 = "p\<lparr>pos := d\<rparr>"
  let ?g1 = "g\<lparr>m_player := Some ?p1\<rparr>"
  have mv: "move p dir = Some (True, ?p1)"
    using assms(6,7,8) move_spec_delta [of dir p] by simp
  have t1: "getTile m (fst (pos ?p1)) (snd (pos ?p1)) = Some t"
    using assms(9) by simp
  have steps: "handleMovement W H g dir =
      (case getEnemyAt ?g1 (pos ?p1) of Some i \<Rightarrow> handleCombat ?g1 i | None \<Rightarrow> Some ?g1)
      \<bind> (\<lambda>g2. if t_type t = StairsDown then nextLevel W H g2 else Some g2)"
    by (rule handleMovement_steps [OF assms(1,2) mv t1])
  have "m_player ?g1 = Some ?p1" by simp
  moreover have "list_all (combat_in_range ?p1) (m_enemies ?g1)"
    using assms(11) by simp
  ultimately obtain g2 p2
    where g2: "(case getEnemyAt ?g1 (pos ?p1) of Some i \<Rightarrow> handleCombat ?g1 i | None \<Rightarrow> Some ?g1)
                = Some g2"
      and f2: "m_generator g2 = m_generator ?g1" "m_floorItems g2 = m_floorItems ?g1"
        "m_nextEntityId g2 = m_nextEntityId ?g1"
      and p2: "m_player g2 = Some p2" "dungeonLevel p2 = dungeonLevel ?p1"
    using combat_step_defined [of ?g1 ?p1 "pos ?p1"] by blast
  have g2': "(case getEnemyAt ?g1 d of Some i \<Rightarrow> handleCombat ?g1 i | None \<Rightarrow> Some ?g1) = Some g2"
    using g2 by simp
  have hm: "handleMovement W H g dir = nextLevel W H g2"
    unfolding steps g2 using assms(10) by simp
  have gen2: "m_generator g2 = Some gen"
    using f2 assms(3) by simp
  have W3: "3 \<le> W" and H3: "3 \<le> H" and W2: "2 \<le> W" and H2: "2 \<le> H"
    using assms(4,5) by simp_all
  have dl2: "in_int (dungeonLevel p2 + 1)" and n2: "in_int (5 + (dungeonLevel p2 + 1))"
    using assms(12,13) p2 by simp_all
  obtain g' m' gen' where r: "nextLevel W H g2 = Some g'"
    and gm: "generate gen W H = Some (m', gen')" "m_map g' = Some m'"
    and pl: "m_player g' = Some (p2\<lparr>dungeonLevel := dungeonLevel p2 + 1, pos := spawn_point W H\<rparr>)"
    and en: "length (m_enemies g') = nat (5 + (dungeonLevel p2 + 1))"
      "list_all (spawned W H (m_nextEntityId g2)) (m_enemies g')"
    and it: "m_floorItems g' = m_floorItems g2 @ replicate 3 potion"
    and ms: "m_messages g' = m_messages (addMessage g2
              (''You descend to dungeon level '' @ to_string (dungeonLevel p2 + 1)))"
    and st: "m_state g' = m_state g2"
    using nextLevel_result [OF p2(1) gen2 W3 H3 dl2 n2] by blast
  have room: "in_room W H (fst (spawn_point W H)) (snd (spawn_point W H))"
    using assms(4,5) by (auto simp add: in_room_def spawn_point_def)
  have mp: "m_width m' = W" "m_height m' = H"
    and wk: "\<forall>x y. isWalkable m' x y = Some (in_room W H x y)"
    using generate_walkable [OF W2 H2 gm(1)] by simp_all
  have ws: "isWalkable m' (fst (spawn_point W H)) (snd (spawn_point W H)) = Some True"
    using wk room by simp
  have l: "last (m_messages g') = ''You descend to dungeon level '' @ to_string (dungeonLevel p2 + 1)"
    unfolding ms by (rule last_addMessage)
  let ?p' = "p2\<lparr>dungeonLevel := dungeonLevel p + 1, pos := spawn_point W H\<rparr>"
  have pl': "m_player g' = Some ?p'"
    using pl p2 by simp
  have lv: "dungeonLevel ?p' = dungeonLevel p + 1" and ps: "pos ?p' = spawn_point W H"
    by simp_all
  show ?thesis
  proof (rule exI [of _ g2], rule exI [of _ p2], rule exI [of _ g'], rule exI [of _ ?p'],
      rule exI [of _ m'], rule exI [of _ gen'], intro conjI)
    show "(case getEnemyAt ?g1 d of Some i \<Rightarrow> handleCombat ?g1 i | None \<Rightarrow> Some ?g1) = Some g2"
      by (rule g2')
    show "m_player g2 = Some p2" by (rule p2)
    show "handleMovement W H g dir = nextLevel W H g2" by (rule hm)
    show "handleMovement W H g dir = Some g'" using hm r by simp
    show "m_player g' = Some ?p'" by (rule pl')
    show "?p' = ?p'" by (rule refl)
    show "m_state g' = m_state g2" by (rule st)
    show "generate gen W H = Some (m', gen')" and "m_map g' = Some m'" by (rule gm)+
    show "m_width m' = W" and "m_height m' = H" by (rule mp)+
    show "in_room W H (fst (pos ?p')) (snd (pos ?p'))" unfolding ps by (rule room)
    show "isWalkable m' (fst (pos ?p')) (snd (pos ?p')) = Some True" unfolding ps by (rule ws)
    show "\<forall>x y. isWalkable m' x y = Some (in_room W H x y)" by (rule wk)
    show "length (m_enemies g') = nat (5 + dungeonLevel ?p')"
      unfolding lv using en(1) p2 by simp
    show "list_all (spawned W H (m_nextEntityId g)) (m_enemies g')"
      using en(2) f2 by simp
    show "m_floorItems g' = m_floorItems g @ replicate 3 potion"
      using it f2 by simp
    show "m_messages g' = m_messages (addMessage g2
              (''You descend to dungeon level '' @ to_string (dungeonLevel ?p')))"
      unfolding lv using ms p2 by simp
    show "last (m_messages g') = ''You descend to dungeon level '' @ to_string (dungeonLevel ?p')"
      unfolding lv using l p2 by simp
    show "dungeonLevel p = 1 \<longrightarrow> dungeonLevel ?p' = 2 \<and> length (m_enemies g') = 7"
      unfolding lv using en(1) p2 by simp
  qed
qed

lemma demo_session_rat_on_stairs:
  "\<exists>m. demo_session 8 8 (shift [1, 0, 2, 1, 4] (sconst 3)) =
       Some \<lparr>m_state = Playing, m_nextEntityId = 7,
             m_player = Some ((new_Player 1 ''Hero'' (5, 5))\<lparr>pos := (3, 3)\<rparr>),
             m_map = Some m, m_generator = Some \<lparr>m_seed = 0, m_rng = sconst 3\<rparr>,
             m_enemies = [new_Enemy 2 Rat (3, 2), new_Enemy 3 Zombie (4, 4),
               new_Enemy 4 Zombie (4, 4), new_Enemy 5 Zombie (4, 4), new_Enemy 6 Zombie (4, 4)],
             m_floorItems = [potion, potion, potion],
             m_messages = [''Welcome to the dungeon, Hero!'']\<rparr> \<and>
     getTile m 3 2 = Some (tile_of StairsDown)"
proof -
  let ?gen = "\<lparr>m_seed = 0, m_rng = shift [1, 0, 2, 1, 4] (sconst 3)\<rparr>"
  obtain m where g: "generate ?gen 8 8 = Some (m, ?gen\<lparr>m_rng := stl (stl (m_rng ?gen))\<rparr>)"
    and t: "\<forall>x y. 0 \<le> x \<and> x < 8 \<and> 0 \<le> y \<and> y < 8 \<longrightarrow> getTile m x y =
                Some (if (x, y) = stairs_of ?gen 8 8 then tile_of StairsDown
                      else if in_room 8 8 x y then tile_of Floor else tile_of Wall)"
    using generate_tile [of 8 8 ?gen] by auto
  have tile: "getTile m 3 2 = Some (tile_of StairsDown)"
    using t by (simp add: stairs_of_def)
  show ?thesis
    using tile g
    by (simp add: demo_session_def newGame_def initialize_def new_Game_def Let_def
        spawnEnemies_def spawnItems_def spawnEnemies_from.simps spawnItems_from.simps
        uniform_int_def addMessage_def MAX_MESSAGES_def types_def potion_def)
      (simp add: eval_nat_numeral)
qed

lemma to_string_small:
  "to_string 2 = ''2''" "to_string 5 = ''5''" "to_string 10 = ''10''"
  by code_simp+

theorem handleMovement_descends_witness:
  "\<exists>g g' p'. demo_session 8 8 (shift [1, 0, 2, 1, 4] (sconst 3)) = Some g \<and>
     map_option (\<lambda>q. (pos q, dungeonLevel q, health q, experience q, gold q)) (m_player g) =
       Some ((3, 3), 1, 100, 0, 0) \<and>
     map (\<lambda>e. (e_type e, e_pos e, e_health e)) (take 1 (m_enemies g)) = [(Rat, (3, 2), 5)] \<and>
     length (m_enemies g) = 5 \<and>
     map_option t_type (m_map g \<bind> (\<lambda>m. getTile m 3 2)) = Some StairsDown \<and>
     handleMovement 8 8 g North = Some g' \<and> m_player g' = Some p' \<and>
     dungeonLevel p' = 2 \<and> pos p' = (3, 3) \<and> health p' = 100 \<and> experience p' = 10 \<and>
     gold p' = 5 \<and> m_state g' = Playing \<and>
     (m_map g' \<bind> (\<lambda>m'. isWalkable m' 3 3)) = Some True \<and>
     length (m_enemies g') = 7 \<and> list_all (\<lambda>e. 7 \<le> e_id e) (m_enemies g') \<and>
     length (m_floorItems g') = 6 \<and>
     m_messages g' = [''Welcome to the dungeon, Hero!'', ''You hit Rat for 5 damage!'',
       ''You defeated Rat! +10 XP'', ''You descend to dungeon level 2'']"
proof -
  let ?p = "(new_Player 1 ''Hero'' (5, 5))\<lparr>pos := (3, 3)\<rparr>"
  let ?gen = "\<lparr>m_seed = 0, m_rng = sconst 3\<rparr>"
  let ?g = "\<lambda>m. \<lparr>m_state = Playing, m_nextEntityId = 7, m_player = Some ?p,
             m_map = Some m, m_generator = Some ?gen,
             m_enemies = [new_Enemy 2 Rat (3, 2), new_Enemy 3 Zombie (4, 4),
               new_Enemy 4 Zombie (4, 4), new_Enemy 5 Zombie (4, 4), new_Enemy 6 Zombie (4, 4)],
             m_floorItems = [potion, potion, potion],
             m_messages = [''Welcome to the dungeon, Hero!'']\<rparr>"
  obtain m where s: "demo_session 8 8 (shift [1, 0, 2, 1, 4] (sconst 3)) = Some (?g m)"
    and t: "getTile m 3 2 = Some (tile_of StairsDown)"
    using demo_session_rat_on_stairs by blast
  have a1: "m_player (?g m) = Some ?p" and a2: "m_map (?g m) = Some m"
    and a3: "m_generator (?g m) = Some ?gen"
    by simp_all
  have a4: "(4 :: int) \<le> 8" by simp
  have a6: "(3, 2) = spec_delta North (pos ?p)"
    by (simp add: spec_delta_def)
  have a7: "in_int (fst (3 :: int, 2 :: int))" "in_int (snd (3 :: int, 2 :: int))"
    by (simp_all add: in_int_def INT_MIN_def INT_MAX_def)
  have a9: "getTile m (fst (3 :: int, 2 :: int)) (snd (3 :: int, 2 :: int)) = Some (tile_of StairsDown)"
    using t by simp
  have a10: "t_type (tile_of StairsDown) = StairsDown" by simp
  have a11: "list_all (combat_in_range ?p) (m_enemies (?g m))"
    by (simp add: combat_in_range_def new_Player_def new_Enemy_def in_int_def
        INT_MIN_def INT_MAX_def)
  have a12: "in_int (dungeonLevel ?p + 1)" and a13: "in_int (5 + (dungeonLevel ?p + 1))"
    by (simp_all add: new_Player_def in_int_def INT_MIN_def INT_MAX_def)
  let ?g1 = "(?g m)\<lparr>m_player := Some (?p\<lparr>pos := (3, 2)\<rparr>)\<rparr>"
  from handleMovement_descends [OF a1 a2 a3 a4 a4 a6 a7 a9 a10 a11 a12 a13]
  obtain g2 p2 g' p' m' where
    c: "(case getEnemyAt ?g1 (3, 2) of Some i \<Rightarrow> handleCombat ?g1 i | None \<Rightarrow> Some ?g1) = Some g2"
    and p2: "m_player g2 = Some p2"
    and r: "handleMovement 8 8 (?g m) North = Some g'" "m_player g' = Some p'"
      "p' = p2\<lparr>dungeonLevel := dungeonLevel ?p + 1, pos := spawn_point 8 8\<rparr>"
      "m_state g' = m_state g2" "m_map g' = Some m'"
      "isWalkable m' (fst (pos p')) (snd (pos p')) = Some True"
      "length (m_enemies g') = nat (5 + dungeonLevel p')"
      "list_all (spawned 8 8 (m_nextEntityId (?g m))) (m_enemies g')"
      "m_floorItems g' = m_floorItems (?g m) @ replicate 3 potion"
      "m_messages g' = m_messages (addMessage g2
          (''You descend to dungeon level '' @ to_string (dungeonLevel p')))"
    by blast
  have f: "getEnemyAt ?g1 (3, 2) = Some 0"
    by (simp add: getEnemyAt_def Enemy_isAlive_def new_Enemy_def)
  have g2: "handleCombat ?g1 0 = Some g2"
    using c unfolding f by simp
  have k: "m_player g2 = Some (?p\<lparr>pos := (3, 2), experience := 10, gold := 5\<rparr>)"
    "m_state g2 = Playing"
    "m_messages g2 = [''Welcome to the dungeon, Hero!'', ''You hit Rat for 5 damage!'',
       ''You defeated Rat! +10 XP'']"
    using g2
    by (auto simp add: handleCombat_def Enemy_takeDamage_def ck_def Enemy_isAlive_def Let_def
        new_Enemy_def new_Player_def in_int_def INT_MIN_def INT_MAX_def addMessage_def
        MAX_MESSAGES_def to_string_small)
  have p2': "p2 = ?p\<lparr>pos := (3, 2), experience := 10, gold := 5\<rparr>"
    using p2 k(1) by simp
  have q: "dungeonLevel p' = 2" "pos p' = (3, 3)" "health p' = 100" "experience p' = 10"
    "gold p' = 5"
    unfolding r(3) p2' by (simp_all add: new_Player_def spawn_point_def)
  have ids: "list_all (\<lambda>e. 7 \<le> e_id e) (m_enemies g')"
    using r(8) by (auto simp add: list_all_iff spawned_def)
  have msgs: "m_messages g' = [''Welcome to the dungeon, Hero!'', ''You hit Rat for 5 damage!'',
       ''You defeated Rat! +10 XP'', ''You descend to dungeon level 2'']"
    unfolding r(10) q(1) by (simp add: addMessage_def Let_def k(3) MAX_MESSAGES_def to_string_small)
  have walk: "isWalkable m' 3 3 = Some True"
    using r(6) unfolding q(2) by simp
  have st: "m_state g' = Playing"
    using r(4) k(2) by simp
  have n: "length (m_enemies g') = 7" "length (m_floorItems g') = 6"
    using r(7,9) q(1) by simp_all
  show ?thesis
    unfolding s
    apply (rule exI [of _ "?g m"])
    apply (rule exI [of _ g'])
    apply (rule exI [of _ p'])
    using t r(1,2,5) q st walk n ids msgs
    by (simp add: new_Player_def new_Enemy_def)
qed

end
